theory Spec2Isabelle
  imports Main
begin

section \<open>JavaScript values the server produces\<close>

text \<open>
  The server (\<^verbatim>\<open>Media Transfer Software/server.js\<close>) answers every request with
  \<^verbatim>\<open>res.status(n).json(obj)\<close> or \<^verbatim>\<open>res.json(obj)\<close> (status 200). A JSON value is a
  datatype; an object keeps its properties in the order the source writes them.
\<close>

datatype json =
    JNull
  | JBool bool
  | JNum int
  | JStr string
  | JArr "json list"
  | JObj "(string \<times> json) list"

fun get :: "json \<Rightarrow> string \<Rightarrow> json option" where
  "get (JObj kvs) k = map_of kvs k"
| "get _ k = None"

record response =
  status :: nat
  payload :: json

text \<open>Decimal rendering of a number inside a template literal.\<close>

fun show_nat :: "nat \<Rightarrow> string" where
  "show_nat n =
     (if n < 10 then [''0123456789'' ! n]
      else show_nat (n div 10) @ [''0123456789'' ! (n mod 10)])"

declare show_nat.simps [simp del]

text \<open>
  A JavaScript number that is either \<^verbatim>\<open>NaN\<close> or an integer: what \<^verbatim>\<open>Math.round\<close>
  returns. \<^verbatim>\<open>None\<close> is \<^verbatim>\<open>NaN\<close>.
\<close>

type_synonym js_number = "int option"

definition number_string :: "js_number \<Rightarrow> string" where
  "number_string x =
     (case x of
        None \<Rightarrow> ''NaN''
      | Some n \<Rightarrow> (if n < 0 then CHR ''-'' # show_nat (nat (- n)) else show_nat (nat n)))"

text \<open>
  \<^verbatim>\<open>Math.round(x / d)\<close> for a property \<^verbatim>\<open>x\<close> that is a number or is absent
  (\<^verbatim>\<open>undefined\<close>), and a positive divisor: \<^verbatim>\<open>undefined / d\<close> is \<^verbatim>\<open>NaN\<close>, and
  \<^verbatim>\<open>Math.round\<close> rounds half up, which is \<open>\<lfloor>x / d + 1/2\<rfloor>\<close>.
\<close>

definition Math_round_div :: "int option \<Rightarrow> int \<Rightarrow> js_number" where
  "Math_round_div x d = map_option (\<lambda>n. (2 * n + d) div (2 * d)) x"

text \<open>\<^verbatim>\<open>String.prototype.startsWith\<close>, \<^verbatim>\<open>endsWith\<close> and \<^verbatim>\<open>slice\<close>.\<close>

definition startsWith :: "string \<Rightarrow> string \<Rightarrow> bool" where
  "startsWith s p = (take (length p) s = p)"

definition endsWith :: "string \<Rightarrow> string \<Rightarrow> bool" where
  "endsWith s p = (length p \<le> length s \<and> drop (length s - length p) s = p)"

definition slice :: "string \<Rightarrow> int \<Rightarrow> int \<Rightarrow> string" where
  "slice s b e =
     (let len = int (length s);
          lo = (if b < 0 then max (len + b) 0 else min b len);
          hi = (if e < 0 then max (len + e) 0 else min e len)
      in take (nat (hi - lo)) (drop (nat lo) s))"

section \<open>Node's \<^verbatim>\<open>path\<close> module (POSIX flavour)\<close>

text \<open>
  \<^verbatim>\<open>storage.filename\<close> calls \<^verbatim>\<open>path.extname\<close> and \<^verbatim>\<open>path.basename\<close>. Both scan the
  path from its last character to its first; the loops below follow Node's
  \<^verbatim>\<open>lib/path.js\<close> (\<^verbatim>\<open>posix\<close>) variable by variable. Indices are \<open>int\<close> because the
  library uses \<open>-1\<close> for "not seen yet". The library's variable \<^verbatim>\<open>end\<close> is
  \<open>e_end\<close> and \<open>b_end\<close> here, \<^verbatim>\<open>matchedSlash\<close> is \<open>e_matchedSlash\<close> and
  \<open>b_matchedSlash\<close>.
\<close>

record ext_vars =
  startDot :: int
  startPart :: int
  e_end :: int
  e_matchedSlash :: bool
  preDotState :: int

text \<open>
  \<open>extname_loop path n s\<close> runs the iterations \<open>i = n - 1, \<dots>, 0\<close> of
  \<^verbatim>\<open>for (let i = path.length - 1; i >= 0; --i)\<close> from the variables \<open>s\<close>; the
  \<^verbatim>\<open>break\<close> returns at once.
\<close>

fun extname_loop :: "string \<Rightarrow> nat \<Rightarrow> ext_vars \<Rightarrow> ext_vars" where
  "extname_loop path 0 s = s"
| "extname_loop path (Suc i) s =
     (let c = path ! i in
      if c = CHR ''/'' then
        (if \<not> e_matchedSlash s then s\<lparr>startPart := int i + 1\<rparr>
         else extname_loop path i s)
      else
        (let s1 = (if e_end s = - 1 then s\<lparr>e_matchedSlash := False, e_end := int i + 1\<rparr>
                   else s);
             s2 = (if c = CHR ''.'' then
                     (if startDot s1 = - 1 then s1\<lparr>startDot := int i\<rparr>
                      else if preDotState s1 \<noteq> 1 then s1\<lparr>preDotState := 1\<rparr>
                      else s1)
                   else if startDot s1 \<noteq> - 1 then s1\<lparr>preDotState := - 1\<rparr>
                   else s1)
         in extname_loop path i s2))"

definition extname_init :: ext_vars where
  "extname_init =
     \<lparr>startDot = - 1, startPart = 0, e_end = - 1, e_matchedSlash = True, preDotState = 0\<rparr>"

definition extname :: "string \<Rightarrow> string" where
  "extname path =
     (let s = extname_loop path (length path) extname_init in
      if startDot s = - 1 \<or> e_end s = - 1 \<or> preDotState s = 0 \<or>
         (preDotState s = 1 \<and> startDot s = e_end s - 1 \<and> startDot s = startPart s + 1)
      then []
      else slice path (startDot s) (e_end s))"

record base_vars =
  start :: int
  b_end :: int
  b_matchedSlash :: bool
  extIdx :: int
  firstNonSlashEnd :: int

text \<open>The loop of \<^verbatim>\<open>basename\<close> that also matches the suffix from its last character.\<close>

fun basename_suffix_loop :: "string \<Rightarrow> string \<Rightarrow> nat \<Rightarrow> base_vars \<Rightarrow> base_vars" where
  "basename_suffix_loop path suffix 0 s = s"
| "basename_suffix_loop path suffix (Suc i) s =
     (let c = path ! i in
      if c = CHR ''/'' then
        (if \<not> b_matchedSlash s then s\<lparr>start := int i + 1\<rparr>
         else basename_suffix_loop path suffix i s)
      else
        (let s1 = (if firstNonSlashEnd s = - 1
                   then s\<lparr>b_matchedSlash := False, firstNonSlashEnd := int i + 1\<rparr>
                   else s);
             s2 = (if 0 \<le> extIdx s1 then
                     (if c = suffix ! nat (extIdx s1) then
                        (if extIdx s1 - 1 = - 1
                         then s1\<lparr>extIdx := extIdx s1 - 1, b_end := int i\<rparr>
                         else s1\<lparr>extIdx := extIdx s1 - 1\<rparr>)
                      else s1\<lparr>extIdx := - 1, b_end := firstNonSlashEnd s1\<rparr>)
                   else s1)
         in basename_suffix_loop path suffix i s2))"

text \<open>The loop of \<^verbatim>\<open>basename\<close> when there is no suffix to strip.\<close>

fun basename_loop :: "string \<Rightarrow> nat \<Rightarrow> base_vars \<Rightarrow> base_vars" where
  "basename_loop path 0 s = s"
| "basename_loop path (Suc i) s =
     (if path ! i = CHR ''/'' then
        (if \<not> b_matchedSlash s then s\<lparr>start := int i + 1\<rparr>
         else basename_loop path i s)
      else if b_end s = - 1
        then basename_loop path i (s\<lparr>b_matchedSlash := False, b_end := int i + 1\<rparr>)
      else basename_loop path i s)"

definition basename_init :: "string \<Rightarrow> base_vars" where
  "basename_init suffix =
     \<lparr>start = 0, b_end = - 1, b_matchedSlash = True,
      extIdx = int (length suffix) - 1, firstNonSlashEnd = - 1\<rparr>"

definition basename :: "string \<Rightarrow> string \<Rightarrow> string" where
  "basename path suffix =
     (if 0 < length suffix \<and> length suffix \<le> length path then
        (if suffix = path then []
         else
           (let s = basename_suffix_loop path suffix (length path) (basename_init suffix);
                e = (if start s = b_end s then firstNonSlashEnd s
                     else if b_end s = - 1 then int (length path)
                     else b_end s)
            in slice path (start s) e))
      else
        (let s = basename_loop path (length path) (basename_init suffix) in
         if b_end s = - 1 then [] else slice path (start s) (b_end s)))"

text \<open>
  \<^verbatim>\<open>path.join(dir, name)\<close> at the server's call sites: \<open>dir\<close> is an absolute,
  normalised directory (\<^verbatim>\<open>__dirname\<close>, or the uploads directory made from it) and
  \<open>name\<close> a single path segment other than \<^verbatim>\<open>.\<close> and \<^verbatim>\<open>..\<close>. Node joins the two
  with a separator and normalises, which here only merges the two separators that
  meet when \<open>dir\<close> is the root directory.
\<close>

definition path_join :: "string \<Rightarrow> string \<Rightarrow> string" where
  "path_join dir name = (if dir = ''/'' then ''/'' @ name else dir @ ''/'' @ name)"

section \<open>The filename allocator\<close>

text \<open>
  \<^verbatim>\<open>new Date().toISOString().replace(/[:.]/g, '-')\<close>: the clock reading \<open>isoString\<close> is an
  input, the global replace maps over its characters.
\<close>

definition replace_colon_dot :: "string \<Rightarrow> string" where
  "replace_colon_dot isoString = map (\<lambda>c. if c = CHR '':'' \<or> c = CHR ''.'' then CHR ''-'' else c) isoString"

definition storage_filename :: "string \<Rightarrow> string \<Rightarrow> string" where
  "storage_filename isoString originalname =
     (let timestamp = replace_colon_dot isoString;
          ext = extname originalname;
          name = basename originalname ext
      in name @ ''_'' @ timestamp @ ext)"

section \<open>The upload middleware and its errors\<close>

text \<open>
  \<^verbatim>\<open>upload = multer({storage, limits: {fileSize, fieldSize, files}})\<close>, with the
  numbers of the source.
\<close>

record limits =
  fileSize :: nat
  fieldSize :: nat
  files :: nat

definition upload_limits :: limits where
  "upload_limits =
     \<lparr>fileSize = 10000 * 1024 * 1024, fieldSize = 50 * 1024 * 1024, files = 1\<rparr>"

text \<open>
  The error object the middleware hands to the callback. The callback reads three of
  its properties: \<^verbatim>\<open>err.code\<close>, \<^verbatim>\<open>err.message\<close> and \<^verbatim>\<open>err.limit\<close>; a property
  the object does not have reads as \<^verbatim>\<open>undefined\<close>, which is \<open>None\<close>.
\<close>

record js_error =
  code :: "string option"
  message :: string
  limit :: "int option"

text \<open>
  The errors multer itself raises are made by \<^verbatim>\<open>new MulterError(code, field)\<close>, which
  sets \<^verbatim>\<open>name\<close>, \<^verbatim>\<open>message\<close> (from the table \<^verbatim>\<open>errorMessages\<close>), \<^verbatim>\<open>code\<close> and
  \<^verbatim>\<open>field\<close>, and nothing else: such an error has no \<^verbatim>\<open>limit\<close> property. The
  callback reads neither \<^verbatim>\<open>name\<close> nor \<^verbatim>\<open>field\<close>, so the record leaves them out.
\<close>

datatype multer_code =
    LIMIT_PART_COUNT
  | LIMIT_FILE_SIZE
  | LIMIT_FILE_COUNT
  | LIMIT_FIELD_KEY
  | LIMIT_FIELD_VALUE
  | LIMIT_FIELD_COUNT
  | LIMIT_UNEXPECTED_FILE
  | MISSING_FIELD_NAME

fun code_name :: "multer_code \<Rightarrow> string" where
  "code_name LIMIT_PART_COUNT = ''LIMIT_PART_COUNT''"
| "code_name LIMIT_FILE_SIZE = ''LIMIT_FILE_SIZE''"
| "code_name LIMIT_FILE_COUNT = ''LIMIT_FILE_COUNT''"
| "code_name LIMIT_FIELD_KEY = ''LIMIT_FIELD_KEY''"
| "code_name LIMIT_FIELD_VALUE = ''LIMIT_FIELD_VALUE''"
| "code_name LIMIT_FIELD_COUNT = ''LIMIT_FIELD_COUNT''"
| "code_name LIMIT_UNEXPECTED_FILE = ''LIMIT_UNEXPECTED_FILE''"
| "code_name MISSING_FIELD_NAME = ''MISSING_FIELD_NAME''"

fun errorMessages :: "multer_code \<Rightarrow> string" where
  "errorMessages LIMIT_PART_COUNT = ''Too many parts''"
| "errorMessages LIMIT_FILE_SIZE = ''File too large''"
| "errorMessages LIMIT_FILE_COUNT = ''Too many files''"
| "errorMessages LIMIT_FIELD_KEY = ''Field name too long''"
| "errorMessages LIMIT_FIELD_VALUE = ''Field value too long''"
| "errorMessages LIMIT_FIELD_COUNT = ''Too many fields''"
| "errorMessages LIMIT_UNEXPECTED_FILE = ''Unexpected field''"
| "errorMessages MISSING_FIELD_NAME = ''Field name missing''"

definition MulterError :: "multer_code \<Rightarrow> js_error" where
  "MulterError c = \<lparr>code = Some (code_name c), message = errorMessages c, limit = None\<rparr>"

text \<open>
  \<^verbatim>\<open>req.file\<close> as the disk storage engine fills it. The JavaScript property \<^verbatim>\<open>size\<close>
  is \<open>file_size\<close> and \<^verbatim>\<open>path\<close> is \<open>file_path\<close> here.
\<close>

record multer_file =
  originalname :: string
  filename :: string
  file_size :: nat
  mimetype :: string
  file_path :: string

text \<open>
  The request as the callback sees it: \<^verbatim>\<open>req.file\<close> (absent when no file was
  attached) and \<^verbatim>\<open>req.body\<close>, the text fields by name (absent when the middleware
  never created it).
\<close>

record request =
  req_file :: "multer_file option"
  req_body :: "(string \<rightharpoonup> string) option"

section \<open>The environment and the effects of a handler\<close>

text \<open>
  What the handlers read from outside: the directory of the script (\<^verbatim>\<open>__dirname\<close>),
  the results of the \<^verbatim>\<open>fs.promises\<close> calls (\<open>Inl\<close> carries the message of the
  rejection), and whether \<^verbatim>\<open>https.createServer\<close> throws on a key and certificate
  (\<open>Some\<close> message) or accepts them. Of the \<^verbatim>\<open>fs.Stats\<close> object the listing reads
  \<^verbatim>\<open>size\<close> (\<open>stat_size\<close> here) and \<^verbatim>\<open>mtime\<close>, a date, kept as the string JSON
  prints for it.
\<close>

record stats =
  stat_size :: nat
  mtime :: string

record world =
  dirname :: string
  readFile :: "string \<Rightarrow> string + string"
  readdir :: "string \<Rightarrow> string + string list"
  stat :: "string \<Rightarrow> string + stats"
  createServer_throws :: "string \<Rightarrow> string \<Rightarrow> string option"

definition uploadsDir :: "world \<Rightarrow> string" where
  "uploadsDir w = path_join (dirname w) ''uploads''"

text \<open>
  What a handler does besides answering: the lines it writes to the console (one
  constructor for each \<^verbatim>\<open>console.log\<close> and \<^verbatim>\<open>console.error\<close> of the source, with
  the values it prints), a file the storage engine writes, the listening socket, and
  \<^verbatim>\<open>process.exit\<close>.
\<close>

datatype console_line =
    Multer_error js_error
  | Receiving_file string js_number
  | File_uploaded json
  | File_preview string
  | Could_not_read_file string
  | Upload_error string
  | Error_listing_files string
  | Error_starting_HTTPS_server string
  | Make_sure_files_exist
  | HTTPS_Server_running nat

datatype effect =
    Console console_line
  | WriteFile string string
  | ListenHttps nat string string
  | Exit int

section \<open>POST /upload\<close>

text \<open>
  The callback of \<^verbatim>\<open>upload.single('file')(req, res, async (err) => \<dots>)\<close>.
  \<open>now\<close> is \<^verbatim>\<open>new Date().toISOString()\<close> at the time \<^verbatim>\<open>fileInfo\<close> is built. With
  \<^verbatim>\<open>req.body\<close> absent, reading \<^verbatim>\<open>req.body.path\<close> throws a \<^verbatim>\<open>TypeError\<close>, which the
  outer \<^verbatim>\<open>catch\<close> turns into the HTTP 500 answer; its message is the one current
  versions of Node print.
\<close>

definition js_or :: "string option \<Rightarrow> string \<Rightarrow> string" where
  "js_or a b = (case a of None \<Rightarrow> b | Some s \<Rightarrow> (if s = [] then b else s))"

definition is_text_file :: "multer_file \<Rightarrow> bool" where
  "is_text_file f =
     (startsWith (mimetype f) ''text/'' \<or>
      endsWith (originalname f) ''.json'' \<or>
      endsWith (originalname f) ''.js'' \<or>
      endsWith (originalname f) ''.html'' \<or>
      endsWith (originalname f) ''.css'')"

definition preview :: "world \<Rightarrow> multer_file \<Rightarrow> effect list" where
  "preview w f =
     (if is_text_file f then
        (case readFile w (file_path f) of
           Inr content \<Rightarrow>
             [Console (File_preview
                (if 500 < length content then take 500 content @ ''...'' else content))]
         | Inl readError \<Rightarrow> [Console (Could_not_read_file readError)])
      else [])"

definition type_error_message :: string where
  "type_error_message =
     ''Cannot read properties of undefined (reading '' @ [CHR 0x27] @ ''path'' @ [CHR 0x27] @ '')''"

definition upload_callback ::
    "world \<Rightarrow> string \<Rightarrow> js_error option \<Rightarrow> request \<Rightarrow> response \<times> effect list" where
  "upload_callback w now err req =
     (case err of
        Some e \<Rightarrow>
          (if code e = Some ''LIMIT_FILE_SIZE'' then
             (\<lparr>status = 413,
               payload = JObj
                 [(''success'', JBool False),
                  (''error'', JStr ''File too large''),
                  (''details'', JStr (''File size exceeds the limit of '' @
                      number_string (Math_round_div (limit e) (1024 * 1024)) @ ''MB'')),
                  (''maxSize'', JStr ''1GB'')]\<rparr>,
              [Console (Multer_error e)])
           else
             (\<lparr>status = 400,
               payload = JObj
                 [(''success'', JBool False),
                  (''error'', JStr ''Upload error''),
                  (''details'', JStr (message e))]\<rparr>,
              [Console (Multer_error e)]))
      | None \<Rightarrow>
          (case req_file req of
             None \<Rightarrow>
               (\<lparr>status = 400,
                 payload = JObj
                   [(''success'', JBool False), (''error'', JStr ''No file uploaded'')]\<rparr>,
                [])
           | Some f \<Rightarrow>
               (let receiving =
                      Console (Receiving_file (originalname f)
                        (Math_round_div (Some (int (file_size f))) 1024))
                in case req_body req of
                     None \<Rightarrow>
                       (\<lparr>status = 500,
                         payload = JObj
                           [(''success'', JBool False),
                            (''error'', JStr ''Internal server error''),
                            (''details'', JStr type_error_message)]\<rparr>,
                        [receiving, Console (Upload_error type_error_message)])
                   | Some b \<Rightarrow>
                       (let fileInfo = JObj
                              [(''originalName'', JStr (originalname f)),
                               (''savedAs'', JStr (filename f)),
                               (''size'', JNum (int (file_size f))),
                               (''mimeType'', JStr (mimetype f)),
                               (''path'', JStr (js_or (b ''path'') (originalname f))),
                               (''uploadTime'', JStr now),
                               (''savedPath'', JStr (file_path f))]
                        in (\<lparr>status = 200,
                             payload = JObj
                               [(''success'', JBool True),
                                (''message'', JStr ''File uploaded successfully''),
                                (''file'', fileInfo)]\<rparr>,
                            [receiving, Console (File_uploaded fileInfo)] @ preview w f)))))"

text \<open>
  A file part of the request, with the \<^verbatim>\<open>filename\<close> parameter of its header as the
  client sent it.
\<close>

record file_part =
  part_filename :: string
  part_mimetype :: string
  part_content :: string

text \<open>
  The name the middleware passes on as \<^verbatim>\<open>file.originalname\<close>. Its multipart parser
  (busboy) keeps the full client path only when \<^verbatim>\<open>preservePath\<close> is set, which the
  server does not do; otherwise its \<^verbatim>\<open>basename\<close> scans the name from the end for a
  \<^verbatim>\<open>/\<close> or a backslash, keeps what follows it, and answers the empty name for \<^verbatim>\<open>.\<close>
  and \<^verbatim>\<open>..\<close>. A file part whose name is empty is skipped: no file is attached.
\<close>

fun busboy_scan :: "string \<Rightarrow> nat \<Rightarrow> string" where
  "busboy_scan path 0 = (if path = ''..'' \<or> path = ''.'' then [] else path)"
| "busboy_scan path (Suc i) =
     (if path ! i = CHR ''/'' \<or> path ! i = CHR 0x5C then
        (let rest = drop (Suc i) path in
         if rest = ''..'' \<or> rest = ''.'' then [] else rest)
      else busboy_scan path i)"

definition busboy_basename :: "string \<Rightarrow> string" where
  "busboy_basename path = busboy_scan path (length path)"

text \<open>
  The disk storage engine with the two callbacks of \<^verbatim>\<open>storage\<close>: \<^verbatim>\<open>destination\<close>
  answers \<^verbatim>\<open>uploadsDir\<close>, \<^verbatim>\<open>filename\<close> is the allocator, and the engine writes the
  content to \<^verbatim>\<open>path.join(destination, filename)\<close>. \<open>stamp\<close> is the clock reading of
  the allocator.
\<close>

definition storage_handleFile :: "world \<Rightarrow> string \<Rightarrow> file_part \<Rightarrow> multer_file \<times> effect list" where
  "storage_handleFile w stamp part =
     (let destination = uploadsDir w;
          fname = storage_filename stamp (busboy_basename (part_filename part));
          finalPath = path_join destination fname
      in (\<lparr>originalname = busboy_basename (part_filename part), filename = fname,
           file_size = length (part_content part), mimetype = part_mimetype part,
           file_path = finalPath\<rparr>,
          [WriteFile finalPath (part_content part)]))"

text \<open>
  What the middleware makes of a request before it calls back: it aborts with an
  error, or it finds no file part and stores nothing, or it stores the one file part.
\<close>

datatype parsed = Aborted js_error | No_file | One_file file_part

definition post_upload ::
    "world \<Rightarrow> string \<Rightarrow> string \<Rightarrow> parsed \<Rightarrow> (string \<rightharpoonup> string) \<Rightarrow> response \<times> effect list" where
  "post_upload w stamp now p form =
     (case p of
        Aborted e \<Rightarrow> upload_callback w now (Some e) \<lparr>req_file = None, req_body = Some form\<rparr>
      | No_file \<Rightarrow> upload_callback w now None \<lparr>req_file = None, req_body = Some form\<rparr>
      | One_file part \<Rightarrow>
          (if busboy_basename (part_filename part) = [] then
             upload_callback w now None \<lparr>req_file = None, req_body = Some form\<rparr>
           else
             (let (f, written) = storage_handleFile w stamp part;
                  (res, logged) =
                    upload_callback w now None \<lparr>req_file = Some f, req_body = Some form\<rparr>
              in (res, written @ logged))))"

section \<open>GET /files\<close>

text \<open>
  \<^verbatim>\<open>Promise.all\<close> over promises that settle in the order \<open>sched\<close> (indices into the
  list): the first rejection rejects the whole, a fulfilment stores its value at the
  promise's own index, and the whole fulfils once every index holds a value. \<open>None\<close>
  is a promise that never settles (a schedule that leaves an index out).
\<close>

fun Promise_all_run ::
    "(string + 'a) list \<Rightarrow> nat list \<Rightarrow> 'a option list \<Rightarrow> (string + 'a list) option" where
  "Promise_all_run ps [] vals =
     (if list_all (\<lambda>v. v \<noteq> None) vals then Some (Inr (map the vals)) else None)"
| "Promise_all_run ps (i # sched) vals =
     (if i < length ps then
        (case ps ! i of
           Inl reason \<Rightarrow> Some (Inl reason)
         | Inr v \<Rightarrow> Promise_all_run ps sched (vals[i := Some v]))
      else Promise_all_run ps sched vals)"

definition Promise_all :: "nat list \<Rightarrow> (string + 'a) list \<Rightarrow> (string + 'a list) option" where
  "Promise_all sched ps = Promise_all_run ps sched (replicate (length ps) None)"

text \<open>
  The object the mapped function returns for one entry, and the function itself: the
  path is joined, \<^verbatim>\<open>fs.stat\<close> is awaited, and its rejection rejects the promise.
\<close>

definition detail_object :: "string \<Rightarrow> string \<Rightarrow> stats \<Rightarrow> json" where
  "detail_object fname filePath st =
     JObj [(''name'', JStr fname),
           (''size'', JNum (int (stat_size st))),
           (''modified'', JStr (mtime st)),
           (''path'', JStr filePath)]"

definition file_detail :: "world \<Rightarrow> string \<Rightarrow> string + json" where
  "file_detail w fname =
     (let filePath = path_join (uploadsDir w) fname in
      case stat w filePath of
        Inl reason \<Rightarrow> Inl reason
      | Inr st \<Rightarrow> Inr (detail_object fname filePath st))"

definition could_not_list :: "string \<Rightarrow> response \<times> effect list" where
  "could_not_list reason =
     (\<lparr>status = 500,
       payload = JObj
         [(''success'', JBool False),
          (''error'', JStr ''Could not list files''),
          (''details'', JStr reason)]\<rparr>,
      [Console (Error_listing_files reason)])"

definition get_files :: "world \<Rightarrow> nat list \<Rightarrow> (response \<times> effect list) option" where
  "get_files w sched =
     (case readdir w (uploadsDir w) of
        Inl reason \<Rightarrow> Some (could_not_list reason)
      | Inr names \<Rightarrow>
          (case Promise_all sched (map (file_detail w) names) of
             None \<Rightarrow> None
           | Some (Inl reason) \<Rightarrow> Some (could_not_list reason)
           | Some (Inr fileDetails) \<Rightarrow>
               Some (\<lparr>status = 200,
                      payload = JObj
                        [(''success'', JBool True), (''files'', JArr fileDetails)]\<rparr>,
                     [])))"

section \<open>GET /health\<close>

definition get_health :: "world \<Rightarrow> string \<Rightarrow> response \<times> effect list" where
  "get_health w now =
     (\<lparr>status = 200,
       payload = JObj
         [(''success'', JBool True),
          (''message'', JStr ''Server is running''),
          (''timestamp'', JStr now),
          (''uploadsDirectory'', JStr (uploadsDir w))]\<rparr>,
      [])"

section \<open>Starting the HTTPS server\<close>

definition PORT :: nat where
  "PORT = 3443"

definition startup_failed :: "string \<Rightarrow> effect list" where
  "startup_failed reason =
     [Console (Error_starting_HTTPS_server reason), Console Make_sure_files_exist, Exit 1]"

text \<open>
  \<^verbatim>\<open>startHttpsServer\<close>: the two reads in order, then \<^verbatim>\<open>https.createServer\<close>, then
  \<^verbatim>\<open>server.listen(PORT, \<dots>)\<close>, whose callback prints the address. Any rejection or
  throw inside the \<^verbatim>\<open>try\<close> ends in \<^verbatim>\<open>process.exit(1)\<close>.
\<close>

definition startHttpsServer :: "world \<Rightarrow> effect list" where
  "startHttpsServer w =
     (case readFile w ''./private.key'' of
        Inl reason \<Rightarrow> startup_failed reason
      | Inr key \<Rightarrow>
          (case readFile w ''./public.crt'' of
             Inl reason \<Rightarrow> startup_failed reason
           | Inr cert \<Rightarrow>
               (case createServer_throws w key cert of
                  Some reason \<Rightarrow> startup_failed reason
                | None \<Rightarrow> [ListenHttps PORT key cert, Console (HTTPS_Server_running PORT)])))"

section \<open>Concrete inputs\<close>

text \<open>\<^verbatim>\<open>String.prototype.includes\<close>, to say that a message mentions a number.\<close>

fun string_includes :: "string \<Rightarrow> string \<Rightarrow> bool" where
  "string_includes [] t = (t = [])"
| "string_includes (c # s) t = (startsWith (c # s) t \<or> string_includes s t)"

text \<open>
  A healthy installation: key and certificate in place, two uploaded files, which the
  directory lists in an order that is not alphabetical.
\<close>

definition example_world :: world where
  "example_world =
     \<lparr>dirname = ''/srv/app'',
      readFile = (\<lambda>p. if p = ''./private.key'' then Inr ''KEY''
                      else if p = ''./public.crt'' then Inr ''CERT''
                      else if p = ''/srv/app/uploads/b_2024-01-02T03-04-05-678Z.txt'' then Inr ''abc''
                      else Inl ''ENOENT''),
      readdir = (\<lambda>p. if p = ''/srv/app/uploads''
                     then Inr [''b_2024-01-02T03-04-05-678Z.txt'', ''a.tar_2024-01-01T00-00-00-000Z.gz'']
                     else Inl ''ENOENT''),
      stat = (\<lambda>p. if p = ''/srv/app/uploads/b_2024-01-02T03-04-05-678Z.txt''
                    then Inr \<lparr>stat_size = 3, mtime = ''2024-01-02T03:04:05.700Z''\<rparr>
                  else if p = ''/srv/app/uploads/a.tar_2024-01-01T00-00-00-000Z.gz''
                    then Inr \<lparr>stat_size = 2048, mtime = ''2024-01-01T00:00:00.100Z''\<rparr>
                  else Inl ''ENOENT''),
      createServer_throws = (\<lambda>key cert. None)\<rparr>"

text \<open>
  An installation with no key and no certificate, whose uploads directory lists an
  entry that \<^verbatim>\<open>fs.stat\<close> cannot follow (a dangling symbolic link).
\<close>

definition broken_world :: world where
  "broken_world =
     \<lparr>dirname = ''/srv/app'',
      readFile = (\<lambda>p. Inl ''ENOENT''),
      readdir = (\<lambda>p. if p = ''/srv/app/uploads'' then Inr [''a.txt'', ''gone''] else Inl ''ENOENT''),
      stat = (\<lambda>p. if p = ''/srv/app/uploads/a.txt''
                    then Inr \<lparr>stat_size = 3, mtime = ''2024-01-02T03:04:05.678Z''\<rparr>
                  else Inl ''ENOENT''),
      createServer_throws = (\<lambda>key cert. None)\<rparr>"

definition example_file :: multer_file where
  "example_file =
     \<lparr>originalname = ''b.txt'',
      filename = ''b_2024-01-02T03-04-05-678Z.txt'',
      file_size = 3,
      mimetype = ''text/plain'',
      file_path = ''/srv/app/uploads/b_2024-01-02T03-04-05-678Z.txt''\<rparr>"

definition example_request :: request where
  "example_request = \<lparr>req_file = Some example_file, req_body = Some [''path'' \<mapsto> []]\<rparr>"

section \<open>Properties of the filename allocator\<close>

lemma slice_nat:
  assumes "i \<le> j" and "j \<le> length p"
  shows "slice p (int i) (int j) = take (j - i) (drop i p)"
  using assms by (simp add: slice_def Let_def min_def nat_diff_distrib')

subsection \<open>The scan of \<^verbatim>\<open>path.extname\<close>\<close>

lemma extname_loop_slashes:
  assumes "\<And>j. j < k \<Longrightarrow> p ! (m + j) = CHR ''/''" and "e_matchedSlash s"
  shows "extname_loop p (m + k) s = extname_loop p m s"
  using assms
proof (induction k)
  case 0
  then show ?case by simp
next
  case (Suc k)
  have "p ! (m + k) = CHR ''/''"
    using Suc.prems(1)[of k] by simp
  then have "extname_loop p (m + Suc k) s = extname_loop p (m + k) s"
    using Suc.prems(2) by simp
  also have "\<dots> = extname_loop p m s"
    using Suc.prems by (intro Suc.IH) auto
  finally show ?case .
qed

lemma extname_loop_plain:
  assumes "\<And>j. j < k \<Longrightarrow> p ! (m + j) \<noteq> CHR ''/'' \<and> p ! (m + j) \<noteq> CHR ''.''"
    and "startDot s = - 1"
  shows "extname_loop p (m + k) s =
    extname_loop p m (if k = 0 \<or> e_end s \<noteq> - 1 then s
                      else s\<lparr>e_matchedSlash := False, e_end := int (m + k)\<rparr>)"
  using assms
proof (induction k arbitrary: s)
  case 0
  then show ?case by simp
next
  case (Suc k)
  have c: "p ! (m + k) \<noteq> CHR ''/''" "p ! (m + k) \<noteq> CHR ''.''"
    using Suc.prems(1)[of k] by simp_all
  let ?s1 = "if e_end s = - 1 then s\<lparr>e_matchedSlash := False, e_end := int (m + k) + 1\<rparr> else s"
  have step: "extname_loop p (m + Suc k) s = extname_loop p (m + k) ?s1"
    using c Suc.prems(2) by (simp add: Let_def)
  have "extname_loop p (m + k) ?s1 =
    extname_loop p m (if k = 0 \<or> e_end ?s1 \<noteq> - 1 then ?s1
                      else ?s1\<lparr>e_matchedSlash := False, e_end := int (m + k)\<rparr>)"
    using Suc.prems by (intro Suc.IH) auto
  then show ?case
    unfolding step by (simp add: add.commute)
qed

lemma extname_loop_after_dot:
  assumes "\<And>j. j < k \<Longrightarrow> p ! (m + j) \<noteq> CHR ''/''"
    and "startDot s \<noteq> - 1" and "e_end s \<noteq> - 1"
  shows "extname_loop p (m + k) s =
    extname_loop p m
      (if k = 0 then s else s\<lparr>preDotState := (if p ! m = CHR ''.'' then 1 else - 1)\<rparr>)"
  using assms
proof (induction k arbitrary: s)
  case 0
  then show ?case by simp
next
  case (Suc k)
  have c: "p ! (m + k) \<noteq> CHR ''/''"
    using Suc.prems(1)[of k] by simp
  let ?s2 = "s\<lparr>preDotState := (if p ! (m + k) = CHR ''.'' then 1 else - 1)\<rparr>"
  have idem: "preDotState s = 1 \<Longrightarrow> s\<lparr>preDotState := 1\<rparr> = s"
    by (cases s) simp
  have step: "extname_loop p (m + Suc k) s = extname_loop p (m + k) ?s2"
    using c Suc.prems(2,3) by (simp add: Let_def idem)
  have "extname_loop p (m + k) ?s2 =
    extname_loop p m
      (if k = 0 then ?s2 else ?s2\<lparr>preDotState := (if p ! m = CHR ''.'' then 1 else - 1)\<rparr>)"
    using Suc.prems by (intro Suc.IH) auto
  then show ?case
    unfolding step by (cases "k = 0") simp_all
qed

text \<open>Where the scan stops: at index 0, or at the separator before the component.\<close>

lemma extname_loop_stop:
  assumes "pre = [] \<or> last pre = CHR ''/''" and "\<not> e_matchedSlash s"
  shows "extname_loop (pre @ rest) (length pre) s =
    (if pre = [] then s else s\<lparr>startPart := int (length pre)\<rparr>)"
proof (cases pre rule: rev_cases)
  case Nil
  then show ?thesis by simp
next
  case (snoc ys y)
  then have "y = CHR ''/''"
    using assms(1) by simp
  then show ?thesis
    using snoc assms(2) by (simp add: nth_append)
qed

lemma nth_inside:
  "j < length c \<Longrightarrow> (pre @ c @ post) ! (length pre + j) = c ! j"
  by (simp add: nth_append)

lemma extname_of_component_with_dot:
  assumes sl: "set sl \<subseteq> {CHR ''/''}" and pre: "pre = [] \<or> last pre = CHR ''/''"
    and a: "CHR ''/'' \<notin> set a" and b: "CHR ''/'' \<notin> set b" "CHR ''.'' \<notin> set b"
  shows "extname (pre @ a @ CHR ''.'' # b @ sl) =
    (if a = [] \<or> (a = ''.'' \<and> b = []) then [] else CHR ''.'' # b)"
proof -
  let ?p = "pre @ a @ CHR ''.'' # b @ sl"
  let ?M = "length pre"
  let ?D = "?M + length a"
  let ?E = "Suc ?D + length b"
  let ?s2 = "\<lparr>startDot = int ?D, startPart = 0, e_end = int ?E,
              e_matchedSlash = False, preDotState = 0\<rparr>"
  let ?s3 = "if length a = 0 then ?s2
             else ?s2\<lparr>preDotState := (if ?p ! ?M = CHR ''.'' then 1 else - 1)\<rparr>"
  have len: "length ?p = ?E + length sl"
    by simp
  have in_sl: "?p ! (?E + j) = CHR ''/''" if "j < length sl" for j
  proof -
    have "((pre @ a @ CHR ''.'' # b) @ sl @ []) ! (length (pre @ a @ CHR ''.'' # b) + j) = sl ! j"
      using that by (rule nth_inside)
    moreover have "sl ! j \<in> set sl"
      using that by simp
    ultimately show ?thesis
      using sl by (auto simp add: ac_simps)
  qed
  have in_b: "?p ! (Suc ?D + j) \<noteq> CHR ''/'' \<and> ?p ! (Suc ?D + j) \<noteq> CHR ''.''"
    if "j < length b" for j
  proof -
    have "((pre @ a @ [CHR ''.'']) @ b @ sl) ! (length (pre @ a @ [CHR ''.'']) + j) = b ! j"
      using that by (rule nth_inside)
    moreover have "b ! j \<in> set b"
      using that by simp
    ultimately show ?thesis
      using b by (auto simp add: ac_simps)
  qed
  have at_dot: "?p ! ?D = CHR ''.''"
    using nth_inside[of 0 "CHR ''.'' # b" "pre @ a" sl] by simp
  have in_a: "?p ! (?M + j) \<noteq> CHR ''/''" if "j < length a" for j
  proof -
    have "?p ! (?M + j) = a ! j"
      using that by (rule nth_inside)
    moreover have "a ! j \<in> set a"
      using that by simp
    ultimately show ?thesis
      using a by metis
  qed
  have "extname_loop ?p (?E + length sl) extname_init = extname_loop ?p ?E extname_init"
    using in_sl by (intro extname_loop_slashes) (simp_all add: extname_init_def)
  also have "\<dots> = extname_loop ?p (Suc ?D)
      (if length b = 0 \<or> e_end extname_init \<noteq> - 1 then extname_init
       else extname_init\<lparr>e_matchedSlash := False, e_end := int ?E\<rparr>)"
    using in_b by (intro extname_loop_plain) (simp_all add: extname_init_def)
  also have "\<dots> = extname_loop ?p ?D ?s2"
    using at_dot by (cases "b = []") (simp_all add: extname_init_def Let_def add.commute)
  also have "\<dots> = extname_loop ?p ?M ?s3"
    using in_a by (intro extname_loop_after_dot) simp_all
  also have "\<dots> = (if pre = [] then ?s3 else ?s3\<lparr>startPart := int ?M\<rparr>)"
    using pre by (intro extname_loop_stop) auto
  finally have final: "extname_loop ?p (length ?p) extname_init =
      (if pre = [] then ?s3 else ?s3\<lparr>startPart := int ?M\<rparr>)"
    by (simp only: len)
  have "slice ?p (int ?D) (int ?E) = take (?E - ?D) (drop ?D ?p)"
    by (rule slice_nat) simp_all
  then have cut: "slice ?p (int ?D) (int ?E) = CHR ''.'' # b"
    by simp
  have first: "?p ! ?M = a ! 0" if "a \<noteq> []"
    using that nth_inside[of 0 a pre "CHR ''.'' # b @ sl"] by simp
  show ?thesis
  proof (cases a)
    case Nil
    then show ?thesis
      unfolding extname_def final by (simp add: Let_def)
  next
    case (Cons x xs)
    then have x: "?p ! ?M = x"
      using first by simp
    have "extname ?p = (if x = CHR ''.'' \<and> xs = [] \<and> b = [] then [] else CHR ''.'' # b)"
      unfolding extname_def final x using cut Cons by (auto simp add: Let_def)
    then show ?thesis
      using Cons by auto
  qed
qed

lemma extname_of_component_without_dot:
  assumes sl: "set sl \<subseteq> {CHR ''/''}" and pre: "pre = [] \<or> last pre = CHR ''/''"
    and c: "CHR ''/'' \<notin> set c" "CHR ''.'' \<notin> set c" "c \<noteq> []"
  shows "extname (pre @ c @ sl) = []"
proof -
  let ?p = "pre @ c @ sl"
  let ?M = "length pre"
  let ?E = "?M + length c"
  have len: "length ?p = ?E + length sl"
    by simp
  have in_sl: "?p ! (?E + j) = CHR ''/''" if "j < length sl" for j
  proof -
    have "((pre @ c) @ sl @ []) ! (length (pre @ c) + j) = sl ! j"
      using that by (rule nth_inside)
    moreover have "sl ! j \<in> set sl"
      using that by simp
    ultimately show ?thesis
      using sl by (auto simp add: ac_simps)
  qed
  have in_c: "?p ! (?M + j) \<noteq> CHR ''/'' \<and> ?p ! (?M + j) \<noteq> CHR ''.''" if "j < length c" for j
  proof -
    have "?p ! (?M + j) = c ! j"
      using that by (rule nth_inside)
    moreover have "c ! j \<in> set c"
      using that by simp
    ultimately show ?thesis
      using c by metis
  qed
  let ?s1 = "extname_init\<lparr>e_matchedSlash := False, e_end := int ?E\<rparr>"
  have "extname_loop ?p (?E + length sl) extname_init = extname_loop ?p ?E extname_init"
    using in_sl by (intro extname_loop_slashes) (simp_all add: extname_init_def)
  also have "\<dots> = extname_loop ?p ?M
      (if length c = 0 \<or> e_end extname_init \<noteq> - 1 then extname_init else ?s1)"
    using in_c by (intro extname_loop_plain) (simp_all add: extname_init_def)
  also have "\<dots> = extname_loop ?p ?M ?s1"
    using c(3) by (simp add: extname_init_def)
  also have "\<dots> = (if pre = [] then ?s1 else ?s1\<lparr>startPart := int ?M\<rparr>)"
    using pre by (intro extname_loop_stop) (simp_all add: extname_init_def)
  finally have "extname_loop ?p (length ?p) extname_init =
      (if pre = [] then ?s1 else ?s1\<lparr>startPart := int ?M\<rparr>)"
    by (simp only: len)
  then have "startDot (extname_loop ?p (length ?p) extname_init) = - 1"
    by (simp add: extname_init_def)
  then show ?thesis
    by (simp add: extname_def)
qed

lemma extname_of_slashes:
  assumes "set sl \<subseteq> {CHR ''/''}"
  shows "extname sl = []"
proof -
  have "sl ! (0 + j) = CHR ''/''" if "j < length sl" for j
  proof -
    have "sl ! j \<in> set sl"
      using that by simp
    then show ?thesis
      using assms by auto
  qed
  then have "extname_loop sl (0 + length sl) extname_init = extname_loop sl 0 extname_init"
    by (intro extname_loop_slashes) (simp_all add: extname_init_def)
  then show ?thesis
    by (simp add: extname_def extname_init_def)
qed

subsection \<open>The scans of \<^verbatim>\<open>path.basename\<close>\<close>

lemma basename_loop_slashes:
  assumes "\<And>j. j < k \<Longrightarrow> p ! (m + j) = CHR ''/''" and "b_matchedSlash s"
  shows "basename_loop p (m + k) s = basename_loop p m s"
  using assms
proof (induction k)
  case 0
  then show ?case by simp
next
  case (Suc k)
  have "p ! (m + k) = CHR ''/''"
    using Suc.prems(1)[of k] by simp
  then have "basename_loop p (m + Suc k) s = basename_loop p (m + k) s"
    using Suc.prems(2) by simp
  also have "\<dots> = basename_loop p m s"
    using Suc.prems by (intro Suc.IH) auto
  finally show ?case .
qed

lemma basename_loop_plain:
  assumes "\<And>j. j < k \<Longrightarrow> p ! (m + j) \<noteq> CHR ''/''"
  shows "basename_loop p (m + k) s =
    basename_loop p m
      (if k = 0 \<or> b_end s \<noteq> - 1 then s
       else s\<lparr>b_matchedSlash := False, b_end := int (m + k)\<rparr>)"
  using assms
proof (induction k arbitrary: s)
  case 0
  then show ?case by simp
next
  case (Suc k)
  have c: "p ! (m + k) \<noteq> CHR ''/''"
    using Suc.prems[of k] by simp
  let ?s1 = "if b_end s = - 1 then s\<lparr>b_matchedSlash := False, b_end := int (m + k) + 1\<rparr> else s"
  have step: "basename_loop p (m + Suc k) s = basename_loop p (m + k) ?s1"
    using c by simp
  have "basename_loop p (m + k) ?s1 =
      basename_loop p m
        (if k = 0 \<or> b_end ?s1 \<noteq> - 1 then ?s1
         else ?s1\<lparr>b_matchedSlash := False, b_end := int (m + k)\<rparr>)"
    using Suc.prems by (intro Suc.IH) auto
  then show ?case
    unfolding step by (simp add: add.commute)
qed

lemma basename_loop_stop:
  assumes "pre = [] \<or> last pre = CHR ''/''" and "\<not> b_matchedSlash s"
  shows "basename_loop (pre @ rest) (length pre) s =
    (if pre = [] then s else s\<lparr>start := int (length pre)\<rparr>)"
proof (cases pre rule: rev_cases)
  case Nil
  then show ?thesis by simp
next
  case (snoc ys y)
  then have "y = CHR ''/''"
    using assms(1) by simp
  then show ?thesis
    using snoc assms(2) by (simp add: nth_append)
qed

lemma basename_suffix_loop_slashes:
  assumes "\<And>j. j < k \<Longrightarrow> p ! (m + j) = CHR ''/''" and "b_matchedSlash s"
  shows "basename_suffix_loop p e (m + k) s = basename_suffix_loop p e m s"
  using assms
proof (induction k)
  case 0
  then show ?case by simp
next
  case (Suc k)
  have "p ! (m + k) = CHR ''/''"
    using Suc.prems(1)[of k] by simp
  then have "basename_suffix_loop p e (m + Suc k) s = basename_suffix_loop p e (m + k) s"
    using Suc.prems(2) by simp
  also have "\<dots> = basename_suffix_loop p e m s"
    using Suc.prems by (intro Suc.IH) auto
  finally show ?case .
qed

lemma basename_suffix_loop_match:
  assumes "\<And>j. j < k \<Longrightarrow> p ! (m + j) = e ! j \<and> p ! (m + j) \<noteq> CHR ''/''"
    and "extIdx s = int k - 1" and "0 < k"
  shows "basename_suffix_loop p e (m + k) s =
    basename_suffix_loop p e m
      ((if firstNonSlashEnd s = - 1
        then s\<lparr>b_matchedSlash := False, firstNonSlashEnd := int (m + k)\<rparr> else s)
       \<lparr>extIdx := - 1, b_end := int m\<rparr>)"
  using assms
proof (induction k arbitrary: s)
  case 0
  then show ?case by simp
next
  case (Suc k)
  have c: "p ! (m + k) = e ! k" "p ! (m + k) \<noteq> CHR ''/''"
    using Suc.prems(1)[of k] by blast+
  let ?s1 = "if firstNonSlashEnd s = - 1
    then s\<lparr>b_matchedSlash := False, firstNonSlashEnd := int (m + k) + 1\<rparr> else s"
  show ?case
  proof (cases "k = 0")
    case True
    then show ?thesis
      using c Suc.prems(2) by (simp add: Let_def add.commute)
  next
    case False
    let ?s2 = "?s1\<lparr>extIdx := int k - 1\<rparr>"
    have step: "basename_suffix_loop p e (m + Suc k) s = basename_suffix_loop p e (m + k) ?s2"
      using c False Suc.prems(2) by (simp add: Let_def)
    have "basename_suffix_loop p e (m + k) ?s2 =
      basename_suffix_loop p e m
        ((if firstNonSlashEnd ?s2 = - 1
          then ?s2\<lparr>b_matchedSlash := False, firstNonSlashEnd := int (m + k)\<rparr> else ?s2)
         \<lparr>extIdx := - 1, b_end := int m\<rparr>)"
    proof (rule Suc.IH)
      fix j assume "j < k"
      then have "j < Suc k"
        by simp
      then show "p ! (m + j) = e ! j \<and> p ! (m + j) \<noteq> CHR ''/''"
        by (rule Suc.prems(1))
    qed (use False in simp_all)
    then show ?thesis
      unfolding step by (simp add: add.commute)
  qed
qed

lemma basename_suffix_loop_rest:
  assumes "\<And>j. j < k \<Longrightarrow> p ! (m + j) \<noteq> CHR ''/''"
    and "extIdx s < 0" and "firstNonSlashEnd s \<noteq> - 1"
  shows "basename_suffix_loop p e (m + k) s = basename_suffix_loop p e m s"
  using assms
proof (induction k)
  case 0
  then show ?case by simp
next
  case (Suc k)
  have c: "p ! (m + k) \<noteq> CHR ''/''"
    using Suc.prems(1)[of k] by simp
  have "basename_suffix_loop p e (m + Suc k) s = basename_suffix_loop p e (m + k) s"
    using c Suc.prems(2,3) by (simp add: Let_def)
  also have "\<dots> = basename_suffix_loop p e m s"
    using Suc.prems by (intro Suc.IH) auto
  finally show ?case .
qed

lemma basename_suffix_loop_stop:
  assumes "pre = [] \<or> last pre = CHR ''/''" and "\<not> b_matchedSlash s"
  shows "basename_suffix_loop (pre @ rest) e (length pre) s =
    (if pre = [] then s else s\<lparr>start := int (length pre)\<rparr>)"
proof (cases pre rule: rev_cases)
  case Nil
  then show ?thesis by simp
next
  case (snoc ys y)
  then have "y = CHR ''/''"
    using assms(1) by simp
  then show ?thesis
    using snoc assms(2) by (simp add: nth_append)
qed

lemma basename_of_component:
  assumes sl: "set sl \<subseteq> {CHR ''/''}" and pre: "pre = [] \<or> last pre = CHR ''/''"
    and c: "CHR ''/'' \<notin> set c" "c \<noteq> []"
  shows "basename (pre @ c @ sl) [] = c"
proof -
  let ?p = "pre @ c @ sl"
  let ?M = "length pre"
  let ?E = "?M + length c"
  let ?i = "basename_init []"
  let ?s1 = "?i\<lparr>b_matchedSlash := False, b_end := int ?E\<rparr>"
  have len: "length ?p = ?E + length sl"
    by simp
  have in_sl: "?p ! (?E + j) = CHR ''/''" if "j < length sl" for j
  proof -
    have "((pre @ c) @ sl @ []) ! (length (pre @ c) + j) = sl ! j"
      using that by (rule nth_inside)
    moreover have "sl ! j \<in> set sl"
      using that by simp
    ultimately show ?thesis
      using sl by (auto simp add: ac_simps)
  qed
  have in_c: "?p ! (?M + j) \<noteq> CHR ''/''" if "j < length c" for j
  proof -
    have "?p ! (?M + j) = c ! j"
      using that by (rule nth_inside)
    moreover have "c ! j \<in> set c"
      using that by simp
    ultimately show ?thesis
      using c(1) by metis
  qed
  have "basename_loop ?p (?E + length sl) ?i = basename_loop ?p ?E ?i"
    using in_sl by (intro basename_loop_slashes) (simp_all add: basename_init_def)
  also have "\<dots> = basename_loop ?p ?M (if length c = 0 \<or> b_end ?i \<noteq> - 1 then ?i else ?s1)"
    using in_c by (intro basename_loop_plain) simp_all
  also have "\<dots> = basename_loop ?p ?M ?s1"
    using c(2) by (simp add: basename_init_def)
  also have "\<dots> = (if pre = [] then ?s1 else ?s1\<lparr>start := int ?M\<rparr>)"
    using pre by (intro basename_loop_stop) (simp_all add: basename_init_def)
  finally have final: "basename_loop ?p (length ?p) ?i =
      (if pre = [] then ?s1 else ?s1\<lparr>start := int ?M\<rparr>)"
    by (simp only: len)
  have "slice ?p (int ?M) (int ?E) = take (?E - ?M) (drop ?M ?p)"
    by (rule slice_nat) simp_all
  then have cut: "slice ?p (int ?M) (int ?E) = c"
    by simp
  show ?thesis
  proof (cases "pre = []")
    case True
    then show ?thesis
      unfolding basename_def final using cut by (simp add: basename_init_def Let_def)
  next
    case False
    then show ?thesis
      unfolding basename_def final using cut by (simp add: basename_init_def Let_def)
  qed
qed

lemma basename_of_slashes:
  assumes "set sl \<subseteq> {CHR ''/''}"
  shows "basename sl [] = []"
proof -
  have "sl ! (0 + j) = CHR ''/''" if "j < length sl" for j
  proof -
    have "sl ! j \<in> set sl"
      using that by simp
    then show ?thesis
      using assms by auto
  qed
  then have "basename_loop sl (0 + length sl) (basename_init []) =
      basename_loop sl 0 (basename_init [])"
    by (intro basename_loop_slashes) (simp_all add: basename_init_def)
  then show ?thesis
    by (simp add: basename_def basename_init_def)
qed

lemma basename_strip_component:
  assumes sl: "set sl \<subseteq> {CHR ''/''}" and pre: "pre = [] \<or> last pre = CHR ''/''"
    and a: "CHR ''/'' \<notin> set a" "a \<noteq> []" and e: "CHR ''/'' \<notin> set e" "e \<noteq> []"
  shows "basename (pre @ a @ e @ sl) e = a"
proof -
  let ?p = "pre @ a @ e @ sl"
  let ?M = "length pre"
  let ?A = "?M + length a"
  let ?E = "?A + length e"
  let ?i = "basename_init e"
  let ?s = "\<lparr>start = 0, b_end = int ?A, b_matchedSlash = False, extIdx = - 1,
             firstNonSlashEnd = int ?E\<rparr>"
  have len: "length ?p = ?E + length sl"
    by simp
  have in_sl: "?p ! (?E + j) = CHR ''/''" if "j < length sl" for j
  proof -
    have "((pre @ a @ e) @ sl @ []) ! (length (pre @ a @ e) + j) = sl ! j"
      using that by (rule nth_inside)
    moreover have "sl ! j \<in> set sl"
      using that by simp
    ultimately show ?thesis
      using sl by (auto simp add: ac_simps)
  qed
  have in_e: "?p ! (?A + j) = e ! j \<and> ?p ! (?A + j) \<noteq> CHR ''/''" if "j < length e" for j
  proof -
    have "((pre @ a) @ e @ sl) ! (length (pre @ a) + j) = e ! j"
      using that by (rule nth_inside)
    moreover have "e ! j \<in> set e"
      using that by simp
    ultimately show ?thesis
      using e(1) by auto
  qed
  have in_a: "?p ! (?M + j) \<noteq> CHR ''/''" if "j < length a" for j
  proof -
    have "?p ! (?M + j) = a ! j"
      using that by (rule nth_inside)
    moreover have "a ! j \<in> set a"
      using that by simp
    ultimately show ?thesis
      using a(1) by metis
  qed
  have "basename_suffix_loop ?p e (?E + length sl) ?i = basename_suffix_loop ?p e ?E ?i"
    using in_sl by (intro basename_suffix_loop_slashes) (simp_all add: basename_init_def)
  also have "\<dots> = basename_suffix_loop ?p e ?A
      ((if firstNonSlashEnd ?i = - 1
        then ?i\<lparr>b_matchedSlash := False, firstNonSlashEnd := int ?E\<rparr> else ?i)
       \<lparr>extIdx := - 1, b_end := int ?A\<rparr>)"
  proof (rule basename_suffix_loop_match)
    fix j assume "j < length e"
    then show "?p ! (?A + j) = e ! j \<and> ?p ! (?A + j) \<noteq> CHR ''/''"
      by (rule in_e)
  qed (use e(2) in \<open>simp_all add: basename_init_def\<close>)
  also have "\<dots> = basename_suffix_loop ?p e ?A ?s"
    by (simp add: basename_init_def)
  also have "\<dots> = basename_suffix_loop ?p e ?M ?s"
    using in_a by (intro basename_suffix_loop_rest) simp_all
  also have "\<dots> = (if pre = [] then ?s else ?s\<lparr>start := int ?M\<rparr>)"
    using pre by (intro basename_suffix_loop_stop) simp_all
  finally have final: "basename_suffix_loop ?p e (length ?p) ?i =
      (if pre = [] then ?s else ?s\<lparr>start := int ?M\<rparr>)"
    by (simp only: len)
  have "slice ?p (int ?M) (int ?A) = take (?A - ?M) (drop ?M ?p)"
    by (rule slice_nat) simp_all
  then have cut: "slice ?p (int ?M) (int ?A) = a"
    by simp
  have "length e \<noteq> length ?p"
    using a(2) by simp
  then have ne: "e \<noteq> ?p"
    by metis
  show ?thesis
  proof (cases "pre = []")
    case True
    then show ?thesis
      unfolding basename_def final using cut ne a(2) e(2) by (simp add: Let_def)
  next
    case False
    then show ?thesis
      unfolding basename_def final using cut ne a(2) e(2) by (simp add: Let_def)
  qed
qed

subsection \<open>Every path is a front, a last component and trailing separators\<close>

lemma path_components:
  obtains pre c sl where "p = pre @ c @ sl" and "set sl \<subseteq> {CHR ''/''}"
    and "CHR ''/'' \<notin> set c" and "pre = [] \<or> last pre = CHR ''/''" and "c = [] \<longrightarrow> pre = []"
proof -
  define tail where "tail = takeWhile (\<lambda>x. x = CHR ''/'') (rev p)"
  define r where "r = dropWhile (\<lambda>x. x = CHR ''/'') (rev p)"
  define comp where "comp = takeWhile (\<lambda>x. x \<noteq> CHR ''/'') r"
  define front where "front = dropWhile (\<lambda>x. x \<noteq> CHR ''/'') r"
  have "rev p = tail @ r"
    by (simp add: tail_def r_def)
  moreover have "r = comp @ front"
    by (simp add: comp_def front_def)
  ultimately have "rev (rev p) = rev (tail @ comp @ front)"
    by simp
  then have 1: "p = rev front @ rev comp @ rev tail"
    by simp
  have 2: "set (rev tail) \<subseteq> {CHR ''/''}"
    by (auto simp add: tail_def dest: set_takeWhileD)
  have 3: "CHR ''/'' \<notin> set (rev comp)"
    by (auto simp add: comp_def dest: set_takeWhileD)
  have 4: "rev front = [] \<or> last (rev front) = CHR ''/''"
  proof (cases "front = []")
    case True
    then show ?thesis by simp
  next
    case False
    then have "hd front = CHR ''/''"
      unfolding front_def using hd_dropWhile[of "\<lambda>x. x \<noteq> CHR ''/''" r] by simp
    then show ?thesis
      using False by (simp add: last_rev)
  qed
  have 5: "rev comp = [] \<longrightarrow> rev front = []"
  proof
    assume "rev comp = []"
    then have tw: "takeWhile (\<lambda>x. x \<noteq> CHR ''/'') r = []"
      by (simp add: comp_def)
    have "r = []"
    proof (rule ccontr)
      assume ne: "r \<noteq> []"
      then have "hd r \<noteq> CHR ''/''"
        unfolding r_def using hd_dropWhile[of "\<lambda>x. x = CHR ''/''" "rev p"] by simp
      then have "takeWhile (\<lambda>x. x \<noteq> CHR ''/'') r \<noteq> []"
        using ne by (cases r) simp_all
      with tw show False by simp
    qed
    then show "rev front = []"
      by (simp add: front_def)
  qed
  from 1 2 3 4 5 show thesis
    by (rule that)
qed

lemma extname_shape:
  "extname p = [] \<or>
   (\<exists>b. extname p = CHR ''.'' # b \<and> CHR ''.'' \<notin> set b \<and> CHR ''/'' \<notin> set b)"
proof -
  obtain pre c sl where p: "p = pre @ c @ sl" and sl: "set sl \<subseteq> {CHR ''/''}"
    and c: "CHR ''/'' \<notin> set c" and pre: "pre = [] \<or> last pre = CHR ''/''"
    and deg: "c = [] \<longrightarrow> pre = []"
    by (rule path_components)
  show ?thesis
  proof (cases "c = []")
    case True
    then have "p = sl"
      using p deg by simp
    then show ?thesis
      using sl by (simp add: extname_of_slashes)
  next
    case False
    show ?thesis
    proof (cases "CHR ''.'' \<in> set c")
      case False
      then have "extname p = []"
        unfolding p using sl pre c \<open>c \<noteq> []\<close> by (intro extname_of_component_without_dot)
      then show ?thesis ..
    next
      case True
      then obtain a b where split: "c = a @ CHR ''.'' # b" and b: "CHR ''.'' \<notin> set b"
        by (meson split_list_last)
      then have a: "CHR ''/'' \<notin> set a" and b': "CHR ''/'' \<notin> set b"
        using c by simp_all
      have "extname (pre @ a @ CHR ''.'' # b @ sl) =
          (if a = [] \<or> (a = ''.'' \<and> b = []) then [] else CHR ''.'' # b)"
        using sl pre a b' b by (rule extname_of_component_with_dot)
      then have "extname p = (if a = [] \<or> (a = ''.'' \<and> b = []) then [] else CHR ''.'' # b)"
        unfolding p split by simp
      then show ?thesis
        using b b' by auto
    qed
  qed
qed

lemma base_and_ext:
  "basename p (extname p) @ extname p = basename p []"
proof (cases "extname p = []")
  case True
  then show ?thesis by simp
next
  case nonempty: False
  obtain pre c sl where p: "p = pre @ c @ sl" and sl: "set sl \<subseteq> {CHR ''/''}"
    and c: "CHR ''/'' \<notin> set c" and pre: "pre = [] \<or> last pre = CHR ''/''"
    and deg: "c = [] \<longrightarrow> pre = []"
    by (rule path_components)
  have "c \<noteq> []"
  proof
    assume "c = []"
    then have "p = sl"
      using p deg by simp
    then show False
      using sl nonempty by (simp add: extname_of_slashes)
  qed
  have "CHR ''.'' \<in> set c"
  proof (rule ccontr)
    assume "CHR ''.'' \<notin> set c"
    then have "extname p = []"
      unfolding p using sl pre c \<open>c \<noteq> []\<close> by (intro extname_of_component_without_dot)
    with nonempty show False ..
  qed
  then obtain a b where split: "c = a @ CHR ''.'' # b" and b: "CHR ''.'' \<notin> set b"
    by (meson split_list_last)
  then have a: "CHR ''/'' \<notin> set a" and b': "CHR ''/'' \<notin> set b"
    using c by simp_all
  have "extname (pre @ a @ CHR ''.'' # b @ sl) =
      (if a = [] \<or> (a = ''.'' \<and> b = []) then [] else CHR ''.'' # b)"
    using sl pre a b' b by (rule extname_of_component_with_dot)
  then have ext: "extname p = (if a = [] \<or> (a = ''.'' \<and> b = []) then [] else CHR ''.'' # b)"
    unfolding p split by simp
  with nonempty have ext': "extname p = CHR ''.'' # b" and "a \<noteq> []"
    by (auto split: if_splits)
  have "basename (pre @ a @ (CHR ''.'' # b) @ sl) (CHR ''.'' # b) = a"
    using sl pre a \<open>a \<noteq> []\<close> b' by (intro basename_strip_component) simp_all
  then have base: "basename p (CHR ''.'' # b) = a"
    unfolding p split by simp
  have "basename p [] = c"
    unfolding p using sl pre c \<open>c \<noteq> []\<close> by (rule basename_of_component)
  then show ?thesis
    using ext' base split by simp
qed

lemma basename_of_filename:
  assumes "CHR ''/'' \<notin> set p"
  shows "basename p [] = p"
proof (cases "p = []")
  case True
  then show ?thesis
    by (simp add: basename_def basename_init_def)
next
  case False
  have "basename ([] @ p @ []) [] = p"
    using assms False by (intro basename_of_component) simp_all
  then show ?thesis by simp
qed

lemma basename_last_component:
  assumes "basename p [] \<noteq> []"
  obtains pre sl where "p = pre @ basename p [] @ sl" and "set sl \<subseteq> {CHR ''/''}"
    and "CHR ''/'' \<notin> set (basename p [])" and "pre = [] \<or> last pre = CHR ''/''"
proof -
  obtain pre c sl where p: "p = pre @ c @ sl" and sl: "set sl \<subseteq> {CHR ''/''}"
    and c: "CHR ''/'' \<notin> set c" and pre: "pre = [] \<or> last pre = CHR ''/''"
    and deg: "c = [] \<longrightarrow> pre = []"
    by (rule path_components)
  have "c \<noteq> []"
  proof
    assume "c = []"
    then have "p = sl"
      using p deg by simp
    then show False
      using sl assms by (simp add: basename_of_slashes)
  qed
  then have "basename (pre @ c @ sl) [] = c"
    using sl pre c by (intro basename_of_component)
  then have "basename p [] = c"
    using p by simp
  with p sl c pre show thesis
    by (intro that[of pre sl]) simp_all
qed

subsection \<open>The destination filename\<close>

text \<open>The extension of a path, read off its last component.\<close>

lemma extname_without_component:
  assumes "basename p [] = []"
  shows "extname p = []"
proof -
  obtain pre c sl where p: "p = pre @ c @ sl" and sl: "set sl \<subseteq> {CHR ''/''}"
    and c: "CHR ''/'' \<notin> set c" and pre: "pre = [] \<or> last pre = CHR ''/''"
    and deg: "c = [] \<longrightarrow> pre = []"
    by (rule path_components)
  have "c = []"
  proof (rule ccontr)
    assume "c \<noteq> []"
    then have "basename (pre @ c @ sl) [] = c"
      using sl pre c by (intro basename_of_component)
    with assms p \<open>c \<noteq> []\<close> show False
      by simp
  qed
  then have "p = sl"
    using p deg by simp
  then show ?thesis
    using sl by (simp add: extname_of_slashes)
qed

lemma extname_without_dot:
  assumes "CHR ''.'' \<notin> set (basename p [])"
  shows "extname p = []"
proof (cases "basename p [] = []")
  case True
  then show ?thesis
    by (rule extname_without_component)
next
  case False
  then obtain pre sl where p: "p = pre @ basename p [] @ sl" and sl: "set sl \<subseteq> {CHR ''/''}"
    and c: "CHR ''/'' \<notin> set (basename p [])" and pre: "pre = [] \<or> last pre = CHR ''/''"
    by (rule basename_last_component)
  have "extname (pre @ basename p [] @ sl) = []"
    using sl pre c assms False by (rule extname_of_component_without_dot)
  then show ?thesis
    using p by simp
qed

lemma extname_at_last_dot:
  assumes "basename p [] = a @ CHR ''.'' # b" and "CHR ''.'' \<notin> set b"
  shows "extname p = (if a = [] \<or> (a = ''.'' \<and> b = []) then [] else CHR ''.'' # b)"
proof -
  have "basename p [] \<noteq> []"
    using assms(1) by simp
  then obtain pre sl where p: "p = pre @ basename p [] @ sl" and sl: "set sl \<subseteq> {CHR ''/''}"
    and c: "CHR ''/'' \<notin> set (basename p [])" and pre: "pre = [] \<or> last pre = CHR ''/''"
    by (rule basename_last_component)
  have a: "CHR ''/'' \<notin> set a" and b: "CHR ''/'' \<notin> set b"
    using c unfolding assms(1) by simp_all
  have "extname (pre @ a @ CHR ''.'' # b @ sl) =
      (if a = [] \<or> (a = ''.'' \<and> b = []) then [] else CHR ''.'' # b)"
    using sl pre a b assms(2) by (rule extname_of_component_with_dot)
  moreover have "p = pre @ a @ CHR ''.'' # b @ sl"
    using p unfolding assms(1) by simp
  ultimately show ?thesis
    by simp
qed

text \<open>
  C1. For every original name and every clock reading \<open>t\<close>, the allocator answers
  base, underscore, timestamp, extension. The extension is \<^verbatim>\<open>path.extname\<close> of the
  name: with the last path component of the name (the whole name when it has no
  separator) split at its last dot into \<open>a\<close> and \<open>.b\<close>, the extension is \<open>.b\<close>, the dot
  included, unless nothing stands before that dot or the component is \<^verbatim>\<open>..\<close>; then, and
  when the component has no dot, it is empty. The base is the component without that
  extension. The timestamp is \<open>t\<close> with every colon and every dot replaced by a hyphen
  and every other character kept. The storage engine saves every file part under that
  name in the uploads directory.
\<close>

theorem storage_filename_form:
  "storage_filename t name =
     basename name (extname name) @ ''_'' @ replace_colon_dot t @ extname name
   \<and> basename name (extname name) @ extname name = basename name []
   \<and> (CHR ''/'' \<notin> set name \<longrightarrow> basename name (extname name) @ extname name = name)
   \<and> (extname name = [] \<or>
       (\<exists>b. extname name = CHR ''.'' # b \<and> CHR ''.'' \<notin> set b \<and> CHR ''/'' \<notin> set b))
   \<and> length (replace_colon_dot t) = length t
   \<and> (\<forall>i < length t. replace_colon_dot t ! i =
         (if t ! i = CHR '':'' \<or> t ! i = CHR ''.'' then CHR ''-'' else t ! i))
   \<and> filename (fst (storage_handleFile w t part)) =
       storage_filename t (originalname (fst (storage_handleFile w t part)))
   \<and> snd (storage_handleFile w t part) =
       [WriteFile (path_join (uploadsDir w) (filename (fst (storage_handleFile w t part))))
          (part_content part)]
   \<and> (CHR ''/'' \<notin> set name \<longrightarrow> basename name [] = name)
   \<and> (\<forall>pre c sl. name = pre @ c @ sl \<and> set sl \<subseteq> {CHR ''/''} \<and> CHR ''/'' \<notin> set c \<and> c \<noteq> []
          \<and> (pre = [] \<or> last pre = CHR ''/'') \<longrightarrow> basename name [] = c)
   \<and> (CHR ''.'' \<notin> set (basename name []) \<longrightarrow> extname name = [])
   \<and> (\<forall>a b. basename name [] = a @ CHR ''.'' # b \<and> CHR ''.'' \<notin> set b \<longrightarrow>
          extname name = (if a = [] \<or> (a = ''.'' \<and> b = []) then [] else CHR ''.'' # b))"
proof (intro conjI)
  show "filename (fst (storage_handleFile w t part)) =
      storage_filename t (originalname (fst (storage_handleFile w t part)))"
    by (simp add: storage_handleFile_def Let_def)
  show "snd (storage_handleFile w t part) =
       [WriteFile (path_join (uploadsDir w) (filename (fst (storage_handleFile w t part))))
          (part_content part)]"
    by (simp add: storage_handleFile_def Let_def)
  show "storage_filename t name =
     basename name (extname name) @ ''_'' @ replace_colon_dot t @ extname name"
    by (simp add: storage_filename_def Let_def)
  show "basename name (extname name) @ extname name = basename name []"
    by (rule base_and_ext)
  show "CHR ''/'' \<notin> set name \<longrightarrow> basename name (extname name) @ extname name = name"
    by (simp add: base_and_ext basename_of_filename)
  show "extname name = [] \<or>
       (\<exists>b. extname name = CHR ''.'' # b \<and> CHR ''.'' \<notin> set b \<and> CHR ''/'' \<notin> set b)"
    by (rule extname_shape)
  show "length (replace_colon_dot t) = length t"
    by (simp add: replace_colon_dot_def)
  show "\<forall>i < length t. replace_colon_dot t ! i =
         (if t ! i = CHR '':'' \<or> t ! i = CHR ''.'' then CHR ''-'' else t ! i)"
    by (simp add: replace_colon_dot_def)
  show "CHR ''/'' \<notin> set name \<longrightarrow> basename name [] = name"
    by (simp add: basename_of_filename)
  show "\<forall>pre c sl. name = pre @ c @ sl \<and> set sl \<subseteq> {CHR ''/''} \<and> CHR ''/'' \<notin> set c \<and> c \<noteq> []
          \<and> (pre = [] \<or> last pre = CHR ''/'') \<longrightarrow> basename name [] = c"
  proof (intro allI impI)
    fix pre c sl
    assume h: "name = pre @ c @ sl \<and> set sl \<subseteq> {CHR ''/''} \<and> CHR ''/'' \<notin> set c \<and> c \<noteq> []
          \<and> (pre = [] \<or> last pre = CHR ''/'')"
    then have "basename (pre @ c @ sl) [] = c"
      by (intro basename_of_component) simp_all
    with h show "basename name [] = c"
      by simp
  qed
  show "CHR ''.'' \<notin> set (basename name []) \<longrightarrow> extname name = []"
    by (simp add: extname_without_dot)
  show "\<forall>a b. basename name [] = a @ CHR ''.'' # b \<and> CHR ''.'' \<notin> set b \<longrightarrow>
          extname name = (if a = [] \<or> (a = ''.'' \<and> b = []) then [] else CHR ''.'' # b)"
    using extname_at_last_dot[of name] by blast
qed

text \<open>
  The values the theorem fixes for three names: one with an extension, one without a
  dot, and one whose only dot comes first.
\<close>

theorem storage_filename_form_witness:
  "CHR ''/'' \<notin> set ''photo.png''
   \<and> extname ''photo.png'' = ''.png''
   \<and> basename ''photo.png'' (extname ''photo.png'') = ''photo''
   \<and> storage_filename ''2024-01-02T03:04:05.678Z'' ''photo.png'' =
       ''photo_2024-01-02T03-04-05-678Z.png''
   \<and> extname ''README'' = []
   \<and> storage_filename ''2024-01-02T03:04:05.678Z'' ''README'' =
       ''README_2024-01-02T03-04-05-678Z''
   \<and> extname ''.bashrc'' = []
   \<and> storage_filename ''2024-01-02T03:04:05.678Z'' ''.bashrc'' =
       ''.bashrc_2024-01-02T03-04-05-678Z''"
proof -
  let ?t = "''2024-01-02T03:04:05.678Z''"
  let ?part = "\<lparr>part_filename = ''photo.png'', part_mimetype = ''image/png'',
    part_content = ''abc''\<rparr>"
  have stamp: "replace_colon_dot ?t = ''2024-01-02T03-04-05-678Z''"
    by (simp add: replace_colon_dot_def)
  \<comment> \<open>\<^verbatim>\<open>photo.png\<close>\<close>
  note photo = storage_filename_form [of ?t "''photo.png''" example_world ?part]
  have p0: "CHR ''/'' \<notin> set ''photo.png''"
    by simp
  from photo p0 have p_whole: "basename ''photo.png'' [] = ''photo.png''"
    by blast
  from photo have "\<forall>a b. basename ''photo.png'' [] = a @ CHR ''.'' # b \<and> CHR ''.'' \<notin> set b \<longrightarrow>
      extname ''photo.png'' = (if a = [] \<or> (a = ''.'' \<and> b = []) then [] else CHR ''.'' # b)"
    by blast
  then have "basename ''photo.png'' [] = ''photo'' @ CHR ''.'' # ''png'' \<and> CHR ''.'' \<notin> set ''png'' \<longrightarrow>
      extname ''photo.png'' =
        (if ''photo'' = [] \<or> (''photo'' = ''.'' \<and> ''png'' = []) then [] else CHR ''.'' # ''png'')"
    by blast
  then have p_ext: "extname ''photo.png'' = ''.png''"
    unfolding p_whole by simp
  from photo have "basename ''photo.png'' (extname ''photo.png'') @ extname ''photo.png'' =
      basename ''photo.png'' []"
    by blast
  then have p_base: "basename ''photo.png'' (extname ''photo.png'') = ''photo''"
    unfolding p_whole p_ext by simp
  from photo have "storage_filename ?t ''photo.png'' =
      basename ''photo.png'' (extname ''photo.png'') @ ''_'' @ replace_colon_dot ?t @
      extname ''photo.png''"
    by blast
  then have p_saved: "storage_filename ?t ''photo.png'' = ''photo_2024-01-02T03-04-05-678Z.png''"
    unfolding p_base unfolding p_ext stamp by simp
  \<comment> \<open>\<^verbatim>\<open>README\<close>\<close>
  note readme = storage_filename_form [of ?t "''README''" example_world ?part]
  have "CHR ''/'' \<notin> set ''README''"
    by simp
  with readme have r_whole: "basename ''README'' [] = ''README''"
    by blast
  from readme have "CHR ''.'' \<notin> set (basename ''README'' []) \<longrightarrow> extname ''README'' = []"
    by blast
  then have r_ext: "extname ''README'' = []"
    unfolding r_whole by simp
  from readme have "basename ''README'' (extname ''README'') @ extname ''README'' =
      basename ''README'' []"
    by blast
  then have r_base: "basename ''README'' (extname ''README'') = ''README''"
    unfolding r_whole r_ext by simp
  from readme have "storage_filename ?t ''README'' =
      basename ''README'' (extname ''README'') @ ''_'' @ replace_colon_dot ?t @ extname ''README''"
    by blast
  then have r_saved: "storage_filename ?t ''README'' = ''README_2024-01-02T03-04-05-678Z''"
    unfolding r_base unfolding r_ext stamp by simp
  \<comment> \<open>\<^verbatim>\<open>.bashrc\<close>\<close>
  note rc = storage_filename_form [of ?t "''.bashrc''" example_world ?part]
  have "CHR ''/'' \<notin> set ''.bashrc''"
    by simp
  with rc have b_whole: "basename ''.bashrc'' [] = ''.bashrc''"
    by blast
  from rc have "\<forall>a b. basename ''.bashrc'' [] = a @ CHR ''.'' # b \<and> CHR ''.'' \<notin> set b \<longrightarrow>
      extname ''.bashrc'' = (if a = [] \<or> (a = ''.'' \<and> b = []) then [] else CHR ''.'' # b)"
    by blast
  then have "basename ''.bashrc'' [] = [] @ CHR ''.'' # ''bashrc'' \<and> CHR ''.'' \<notin> set ''bashrc'' \<longrightarrow>
      extname ''.bashrc'' =
        (if [] = ([]::string) \<or> ([] = ''.'' \<and> ''bashrc'' = []) then [] else CHR ''.'' # ''bashrc'')"
    by blast
  then have b_ext: "extname ''.bashrc'' = []"
    unfolding b_whole by simp
  from rc have "basename ''.bashrc'' (extname ''.bashrc'') @ extname ''.bashrc'' =
      basename ''.bashrc'' []"
    by blast
  then have b_base: "basename ''.bashrc'' (extname ''.bashrc'') = ''.bashrc''"
    unfolding b_whole b_ext by simp
  from rc have "storage_filename ?t ''.bashrc'' =
      basename ''.bashrc'' (extname ''.bashrc'') @ ''_'' @ replace_colon_dot ?t @
      extname ''.bashrc''"
    by blast
  then have b_saved: "storage_filename ?t ''.bashrc'' = ''.bashrc_2024-01-02T03-04-05-678Z''"
    unfolding b_base unfolding b_ext stamp by simp
  from p0 p_ext p_base p_saved r_ext r_saved b_ext b_saved show ?thesis
    by (intro conjI)
qed

subsection \<open>Names with more than one dot\<close>

text \<open>The names the middleware passes on have no separator and are not \<^verbatim>\<open>.\<close> or \<^verbatim>\<open>..\<close>.\<close>

lemma busboy_scan_clean:
  assumes "\<And>j. i \<le> j \<Longrightarrow> j < length path \<Longrightarrow> path ! j \<noteq> CHR ''/'' \<and> path ! j \<noteq> CHR 0x5C"
    and "i \<le> length path"
  shows "CHR ''/'' \<notin> set (busboy_scan path i) \<and> CHR 0x5C \<notin> set (busboy_scan path i)
    \<and> busboy_scan path i \<noteq> ''..'' \<and> busboy_scan path i \<noteq> ''.''"
  using assms
proof (induction i)
  case 0
  have "x \<noteq> CHR ''/'' \<and> x \<noteq> CHR 0x5C" if "x \<in> set path" for x
    using that 0(1) by (auto simp add: in_set_conv_nth)
  then show ?case
    by auto
next
  case (Suc i)
  show ?case
  proof (cases "path ! i = CHR ''/'' \<or> path ! i = CHR 0x5C")
    case True
    have "x \<noteq> CHR ''/'' \<and> x \<noteq> CHR 0x5C" if "x \<in> set (drop (Suc i) path)" for x
    proof -
      from that obtain k where "k < length path - Suc i" and "x = drop (Suc i) path ! k"
        by (auto simp add: in_set_conv_nth)
      then have "x = path ! (Suc i + k)" and "Suc i + k < length path"
        by simp_all
      then show ?thesis
        using Suc.prems(1)[of "Suc i + k"] by simp
    qed
    then show ?thesis
      using True by (auto simp add: Let_def)
  next
    case False
    have "CHR ''/'' \<notin> set (busboy_scan path i) \<and> CHR 0x5C \<notin> set (busboy_scan path i)
      \<and> busboy_scan path i \<noteq> ''..'' \<and> busboy_scan path i \<noteq> ''.''"
    proof (rule Suc.IH)
      fix j assume "i \<le> j" and "j < length path"
      then show "path ! j \<noteq> CHR ''/'' \<and> path ! j \<noteq> CHR 0x5C"
        using False Suc.prems(1)[of j] by (cases "j = i") auto
    qed (use Suc.prems(2) in simp)
    then show ?thesis
      using False by simp
  qed
qed

lemma busboy_basename_clean:
  "CHR ''/'' \<notin> set (busboy_basename raw) \<and> CHR 0x5C \<notin> set (busboy_basename raw)
   \<and> busboy_basename raw \<noteq> ''..'' \<and> busboy_basename raw \<noteq> ''.''"
  unfolding busboy_basename_def by (rule busboy_scan_clean) simp_all

text \<open>
  The split at the last dot, for any path: when its last component has more than one
  dot and is not \<^verbatim>\<open>..\<close>, the extension is the component from its last dot and the
  base is what stands before that dot.
\<close>

lemma split_at_last_dot:
  assumes "1 < count_list (basename name []) CHR ''.''" and "basename name [] \<noteq> ''..''"
  shows "\<exists>a b. basename name [] = a @ CHR ''.'' # b
      \<and> CHR ''.'' \<in> set a \<and> CHR ''.'' \<notin> set b
      \<and> extname name = CHR ''.'' # b
      \<and> basename name (extname name) = a"
proof -
  let ?c = "basename name []"
  have "?c \<noteq> []"
    using assms(1) by auto
  then obtain pre sl where p: "name = pre @ ?c @ sl" and sl: "set sl \<subseteq> {CHR ''/''}"
    and c: "CHR ''/'' \<notin> set ?c" and pre: "pre = [] \<or> last pre = CHR ''/''"
    by (rule basename_last_component)
  have "CHR ''.'' \<in> set ?c"
    using assms(1) by (metis count_list_0_iff not_less_zero)
  then obtain a b where split: "?c = a @ CHR ''.'' # b" and b: "CHR ''.'' \<notin> set b"
    by (meson split_list_last)
  have "count_list ?c CHR ''.'' = count_list a CHR ''.'' + 1"
    unfolding split using b by (simp add: count_list_0_iff)
  then have "0 < count_list a CHR ''.''"
    using assms(1) by simp
  then have dot_a: "CHR ''.'' \<in> set a"
    by (metis count_list_0_iff less_numeral_extra(3))
  then have "a \<noteq> []"
    by auto
  have not_dots: "\<not> (a = ''.'' \<and> b = [])"
    using assms(2) split by auto
  have a: "CHR ''/'' \<notin> set a" and b': "CHR ''/'' \<notin> set b"
    using c split by (metis Un_iff set_append, metis Un_iff list.set_intros(2) set_append)
  have "extname (pre @ a @ CHR ''.'' # b @ sl) =
      (if a = [] \<or> (a = ''.'' \<and> b = []) then [] else CHR ''.'' # b)"
    using sl pre a b' b by (rule extname_of_component_with_dot)
  moreover have name: "name = pre @ a @ CHR ''.'' # b @ sl"
    using p split by simp
  ultimately have ext: "extname name = CHR ''.'' # b"
    using \<open>a \<noteq> []\<close> not_dots by simp
  have "basename (pre @ a @ (CHR ''.'' # b) @ sl) (CHR ''.'' # b) = a"
    using sl pre a \<open>a \<noteq> []\<close> b' by (intro basename_strip_component) simp_all
  then have base: "basename name (extname name) = a"
    using name ext by simp
  with split dot_a b ext show ?thesis
    by blast
qed

text \<open>
  C10. For every original filename the middleware passes on that contains more than
  one dot, the name splits at its last dot into \<open>a\<close> and \<open>.b\<close>: the extension placed
  after the timestamp is \<open>.b\<close>, the substring from the last dot, and the base before the
  underscore is \<open>a\<close>, which keeps the earlier dots.
\<close>

theorem last_extension_only:
  assumes "name = busboy_basename raw" and "1 < count_list name CHR ''.''"
  shows "\<exists>a b. name = a @ CHR ''.'' # b
      \<and> CHR ''.'' \<in> set a \<and> CHR ''.'' \<notin> set b
      \<and> extname name = CHR ''.'' # b
      \<and> basename name (extname name) = a
      \<and> storage_filename t name = a @ ''_'' @ replace_colon_dot t @ CHR ''.'' # b"
proof -
  have clean: "CHR ''/'' \<notin> set name" "name \<noteq> ''..''"
    using busboy_basename_clean[of raw] assms(1) by simp_all
  then have whole: "basename name [] = name"
    by (simp add: basename_of_filename)
  from split_at_last_dot[of name] assms(2) clean(2)
  obtain a b where split: "name = a @ CHR ''.'' # b"
    and dots: "CHR ''.'' \<in> set a" "CHR ''.'' \<notin> set b"
    and ext: "extname name = CHR ''.'' # b"
    and base: "basename name (extname name) = a"
    unfolding whole by blast
  have "storage_filename t name = a @ ''_'' @ replace_colon_dot t @ CHR ''.'' # b"
    using ext base by (simp add: storage_filename_def Let_def)
  with split dots ext base show ?thesis
    by blast
qed

theorem last_extension_only_witness:
  "''a.tar.gz'' = busboy_basename ''a.tar.gz''
   \<and> 1 < count_list ''a.tar.gz'' CHR ''.''
   \<and> extname ''a.tar.gz'' = ''.gz''
   \<and> basename ''a.tar.gz'' (extname ''a.tar.gz'') = ''a.tar''
   \<and> storage_filename ''2024-01-02T03:04:05.678Z'' ''a.tar.gz'' =
       ''a.tar_2024-01-02T03-04-05-678Z.gz''"
proof -
  have h1: "''a.tar.gz'' = busboy_basename ''a.tar.gz''"
    by code_simp
  have h2: "1 < count_list ''a.tar.gz'' CHR ''.''"
    by simp
  from last_extension_only [OF h1 h2, of "''2024-01-02T03:04:05.678Z''"]
  obtain a b where split: "''a.tar.gz'' = a @ CHR ''.'' # b"
    and ext: "extname ''a.tar.gz'' = CHR ''.'' # b"
    and base: "basename ''a.tar.gz'' (extname ''a.tar.gz'') = a"
    and saved: "storage_filename ''2024-01-02T03:04:05.678Z'' ''a.tar.gz'' =
      a @ ''_'' @ replace_colon_dot ''2024-01-02T03:04:05.678Z'' @ CHR ''.'' # b"
    by blast
  have "extname ''a.tar.gz'' = ''.gz''"
    by code_simp
  with ext have b_eq: "b = ''gz''"
    by simp
  have "''a.tar'' @ ''.gz'' = a @ ''.gz''"
    using split unfolding b_eq by simp
  then have a_eq: "a = ''a.tar''"
    by (simp only: append_same_eq)
  have "replace_colon_dot ''2024-01-02T03:04:05.678Z'' = ''2024-01-02T03-04-05-678Z''"
    by (simp add: replace_colon_dot_def)
  with saved have "storage_filename ''2024-01-02T03:04:05.678Z'' ''a.tar.gz'' =
      ''a.tar_2024-01-02T03-04-05-678Z.gz''"
    unfolding a_eq b_eq by simp
  with h1 h2 ext base show ?thesis
    unfolding a_eq b_eq by simp
qed

text \<open>
  The allocator alone, on names the middleware never passes on: \<^verbatim>\<open>..\<close> gets no
  extension, and the directory part of a name with a separator is dropped.
\<close>

lemma storage_filename_other_names:
  "storage_filename ''2024-01-02T03:04:05.678Z'' ''..'' = ''.._2024-01-02T03-04-05-678Z''
   \<and> storage_filename ''2024-01-02T03:04:05.678Z'' ''x.y/a.b'' = ''a_2024-01-02T03-04-05-678Z.b''
   \<and> busboy_basename ''..'' = []
   \<and> busboy_basename ''x.y/a.b'' = ''a.b''"
  by code_simp

section \<open>POST /upload: the error answers\<close>

text \<open>
  C2. An upload whose file is larger than the configured limit is answered with HTTP
  413 and \<^verbatim>\<open>success: false\<close>, and the details message should name the configured
  limit in MB. The middleware reports the oversized file as
  \<^verbatim>\<open>MulterError('LIMIT_FILE_SIZE')\<close>, which has no \<^verbatim>\<open>limit\<close> property, so the
  message the callback builds from \<^verbatim>\<open>err.limit\<close> reads \<^verbatim>\<open>NaNMB\<close>: it does not
  contain the configured limit, 10000.
\<close>

theorem oversized_file_details_NaN:
  "fst (post_upload w stamp now (Aborted (MulterError LIMIT_FILE_SIZE)) form) =
     \<lparr>status = 413,
      payload = JObj [(''success'', JBool False),
                      (''error'', JStr ''File too large''),
                      (''details'', JStr ''File size exceeds the limit of NaNMB''),
                      (''maxSize'', JStr ''1GB'')]\<rparr>
   \<and> show_nat (fileSize upload_limits div (1024 * 1024)) = ''10000''
   \<and> \<not> string_includes ''File size exceeds the limit of NaNMB''
          (show_nat (fileSize upload_limits div (1024 * 1024)))"
proof (intro conjI)
  show "fst (post_upload w stamp now (Aborted (MulterError LIMIT_FILE_SIZE)) form) =
     \<lparr>status = 413,
      payload = JObj [(''success'', JBool False),
                      (''error'', JStr ''File too large''),
                      (''details'', JStr ''File size exceeds the limit of NaNMB''),
                      (''maxSize'', JStr ''1GB'')]\<rparr>"
    by (simp add: post_upload_def upload_callback_def MulterError_def number_string_def
        Math_round_div_def)
  show ten: "show_nat (fileSize upload_limits div (1024 * 1024)) = ''10000''"
    by (simp add: upload_limits_def show_nat.simps)
  show "\<not> string_includes ''File size exceeds the limit of NaNMB''
          (show_nat (fileSize upload_limits div (1024 * 1024)))"
    unfolding ten by (simp add: startsWith_def)
qed

text \<open>
  What the callback would answer if the error did carry the configured limit: the
  message the claim describes.
\<close>

lemma details_with_limit:
  assumes "code e = Some ''LIMIT_FILE_SIZE''" and "limit e = Some (int (fileSize upload_limits))"
  shows "get (payload (fst (upload_callback w now (Some e) req))) ''details'' =
           Some (JStr ''File size exceeds the limit of 10000MB'')"
  using assms
  by (simp add: upload_callback_def upload_limits_def number_string_def Math_round_div_def
      show_nat.simps)

text \<open>
  C3. A well-formed request with no file part: the middleware stores nothing and
  calls back without an error and without \<^verbatim>\<open>req.file\<close>; the answer is HTTP 400,
  \<^verbatim>\<open>success: false\<close>, error \<^verbatim>\<open>No file uploaded\<close>, and the request has no effect at
  all, so no file is written. The same holds for the callback alone, whatever
  \<^verbatim>\<open>req.body\<close> is.
\<close>

theorem no_file_uploaded:
  "post_upload w stamp now No_file form =
     (\<lparr>status = 400,
       payload = JObj [(''success'', JBool False), (''error'', JStr ''No file uploaded'')]\<rparr>,
      [])
   \<and> upload_callback w now None \<lparr>req_file = None, req_body = b\<rparr> =
     (\<lparr>status = 400,
       payload = JObj [(''success'', JBool False), (''error'', JStr ''No file uploaded'')]\<rparr>,
      [])"
  by (simp add: post_upload_def upload_callback_def)



text \<open>
  C8, as amended. The answer of the callback is HTTP 413 exactly when the error's code
  is \<^verbatim>\<open>LIMIT_FILE_SIZE\<close>, and every such answer carries \<^verbatim>\<open>maxSize: '1GB'\<close>: a literal,
  whatever limit the error reports, whatever limit is configured and whatever the
  details of the same answer say. So does the answer to the error the middleware
  makes for an oversized file.
\<close>

theorem maxSize_is_1GB:
  "(status (fst (upload_callback w now err req)) = 413) =
     (\<exists>e. err = Some e \<and> code e = Some ''LIMIT_FILE_SIZE'')
   \<and> (status (fst (upload_callback w now err req)) = 413 \<longrightarrow>
        get (payload (fst (upload_callback w now err req))) ''maxSize'' = Some (JStr ''1GB''))
   \<and> status (fst (post_upload w stamp now (Aborted (MulterError LIMIT_FILE_SIZE)) form)) = 413
   \<and> get (payload (fst (post_upload w stamp now (Aborted (MulterError LIMIT_FILE_SIZE)) form)))
        ''maxSize'' = Some (JStr ''1GB'')"
proof (intro conjI)
  show "(status (fst (upload_callback w now err req)) = 413) =
     (\<exists>e. err = Some e \<and> code e = Some ''LIMIT_FILE_SIZE'')"
    by (auto simp add: upload_callback_def Let_def split: option.splits)
  show "status (fst (upload_callback w now err req)) = 413 \<longrightarrow>
        get (payload (fst (upload_callback w now err req))) ''maxSize'' = Some (JStr ''1GB'')"
    by (auto simp add: upload_callback_def Let_def split: option.splits)
  show "status (fst (post_upload w stamp now (Aborted (MulterError LIMIT_FILE_SIZE)) form)) = 413"
    by (simp add: post_upload_def upload_callback_def MulterError_def)
  show "get (payload (fst (post_upload w stamp now (Aborted (MulterError LIMIT_FILE_SIZE)) form)))
        ''maxSize'' = Some (JStr ''1GB'')"
    by (simp add: post_upload_def upload_callback_def MulterError_def)
qed

text \<open>The error the middleware makes for an oversized file, handed to the callback.\<close>

theorem maxSize_is_1GB_witness:
  "status (fst (upload_callback example_world ''2024-01-02T03:04:06.000Z''
      (Some (MulterError LIMIT_FILE_SIZE)) \<lparr>req_file = None, req_body = Some Map.empty\<rparr>)) = 413
   \<and> get (payload (fst (upload_callback example_world ''2024-01-02T03:04:06.000Z''
      (Some (MulterError LIMIT_FILE_SIZE)) \<lparr>req_file = None, req_body = Some Map.empty\<rparr>)))
        ''maxSize'' = Some (JStr ''1GB'')"
proof -
  let ?req = "\<lparr>req_file = None, req_body = Some Map.empty\<rparr>"
  note inst = maxSize_is_1GB [of example_world "''2024-01-02T03:04:06.000Z''"
      "Some (MulterError LIMIT_FILE_SIZE)" ?req]
  have "\<exists>e. Some (MulterError LIMIT_FILE_SIZE) = Some e \<and> code e = Some ''LIMIT_FILE_SIZE''"
    by (simp add: MulterError_def)
  with inst have st: "status (fst (upload_callback example_world ''2024-01-02T03:04:06.000Z''
      (Some (MulterError LIMIT_FILE_SIZE)) ?req)) = 413"
    by blast
  with inst show ?thesis
    by blast
qed

text \<open>
  C8 as the specification states it fails on the answer to an oversized file: the
  answer carries \<^verbatim>\<open>maxSize: '1GB'\<close>, but its details do not report the configured limit
  of 10000 MB.
\<close>

theorem maxSize_beside_details_without_limit:
  "status (fst (post_upload example_world ''2024-01-02T03:04:05.678Z''
      ''2024-01-02T03:04:06.000Z'' (Aborted (MulterError LIMIT_FILE_SIZE)) Map.empty)) = 413
   \<and> get (payload (fst (post_upload example_world ''2024-01-02T03:04:05.678Z''
        ''2024-01-02T03:04:06.000Z'' (Aborted (MulterError LIMIT_FILE_SIZE)) Map.empty)))
        ''maxSize'' = Some (JStr ''1GB'')
   \<and> get (payload (fst (post_upload example_world ''2024-01-02T03:04:05.678Z''
        ''2024-01-02T03:04:06.000Z'' (Aborted (MulterError LIMIT_FILE_SIZE)) Map.empty)))
        ''details'' = Some (JStr ''File size exceeds the limit of NaNMB'')
   \<and> fileSize upload_limits div (1024 * 1024) = 10000
   \<and> \<not> string_includes ''File size exceeds the limit of NaNMB'' ''10000''"
proof (intro conjI)
  show "fileSize upload_limits div (1024 * 1024) = 10000"
    by (simp add: upload_limits_def)
  show "\<not> string_includes ''File size exceeds the limit of NaNMB'' ''10000''"
    by (simp add: startsWith_def)
qed (simp_all add: post_upload_def upload_callback_def MulterError_def number_string_def
    Math_round_div_def)

section \<open>POST /upload: the declared path\<close>

text \<open>
  C9. In a successful upload whose \<^verbatim>\<open>path\<close> field is the empty string, the answer's
  \<^verbatim>\<open>file.path\<close> is the original filename, and the whole answer is the one the same
  request gets without a \<^verbatim>\<open>path\<close> field: \<^verbatim>\<open>||\<close> takes the empty string for absent.
\<close>

theorem empty_path_field_is_absent:
  assumes "req_file req = Some f" and "req_body req = Some b" and "b ''path'' = Some []"
  shows "status (fst (upload_callback w now None req)) = 200
    \<and> get (payload (fst (upload_callback w now None req))) ''success'' = Some (JBool True)
    \<and> (\<exists>info. get (payload (fst (upload_callback w now None req))) ''file'' = Some info
          \<and> get info ''path'' = Some (JStr (originalname f)))
    \<and> upload_callback w now None req =
        upload_callback w now None (req\<lparr>req_body := Some (b(''path'' := None))\<rparr>)"
  using assms by (simp add: upload_callback_def Let_def js_or_def)

theorem empty_path_field_is_absent_witness:
  "status (fst (upload_callback example_world ''2024-01-02T03:04:06.000Z'' None
      example_request)) = 200
    \<and> get (payload (fst (upload_callback example_world ''2024-01-02T03:04:06.000Z'' None
          example_request))) ''success'' = Some (JBool True)
    \<and> (\<exists>info. get (payload (fst (upload_callback example_world ''2024-01-02T03:04:06.000Z''
          None example_request))) ''file'' = Some info
          \<and> get info ''path'' = Some (JStr (originalname example_file)))
    \<and> upload_callback example_world ''2024-01-02T03:04:06.000Z'' None example_request =
        upload_callback example_world ''2024-01-02T03:04:06.000Z'' None
          (example_request\<lparr>req_body := Some ([''path'' \<mapsto> []](''path'' := None))\<rparr>)"
  by (rule empty_path_field_is_absent) (simp_all add: example_request_def)

section \<open>GET /files: the listing\<close>

lemma Promise_all_run_fulfilled:
  assumes "length vals = length vs"
    and "\<forall>i < length vs. i \<notin> set sched \<longrightarrow> vals ! i = Some (vs ! i)"
  shows "Promise_all_run (map Inr vs) sched vals = Some (Inr vs)"
  using assms
proof (induction sched arbitrary: vals)
  case Nil
  then have eq: "vals = map Some vs"
    by (intro nth_equalityI) auto
  show ?case
    by (simp add: eq list_all_iff comp_def)
next
  case (Cons i sched)
  show ?case
  proof (cases "i < length vs")
    case True
    have "Promise_all_run (map Inr vs) sched (vals[i := Some (vs ! i)]) = Some (Inr vs)"
    proof (rule Cons.IH)
      show "length (vals[i := Some (vs ! i)]) = length vs"
        using Cons.prems by simp
      show "\<forall>j<length vs. j \<notin> set sched \<longrightarrow> vals[i := Some (vs ! i)] ! j = Some (vs ! j)"
      proof (intro allI impI)
        fix j assume j: "j < length vs" "j \<notin> set sched"
        show "vals[i := Some (vs ! i)] ! j = Some (vs ! j)"
        proof (cases "j = i")
          case True
          with j Cons.prems(1) show ?thesis by simp
        next
          case False
          with j Cons.prems show ?thesis by simp
        qed
      qed
    qed
    with True show ?thesis by simp
  next
    case False
    have "Promise_all_run (map Inr vs) sched vals = Some (Inr vs)"
      using Cons.prems False by (intro Cons.IH) auto
    with False show ?thesis by simp
  qed
qed

lemma Promise_all_fulfilled:
  assumes "set sched = {..<length vs}"
  shows "Promise_all sched (map Inr vs) = Some (Inr vs)"
  unfolding Promise_all_def
  using assms by (intro Promise_all_run_fulfilled) auto

lemma Promise_all_run_rejected:
  assumes "\<exists>i \<in> set sched. i < length ps \<and> isl (ps ! i)"
  shows "\<exists>i \<in> set sched. i < length ps \<and> isl (ps ! i) \<and>
           Promise_all_run ps sched vals = Some (Inl (projl (ps ! i)))"
  using assms
proof (induction sched arbitrary: vals)
  case Nil
  then show ?case by simp
next
  case (Cons j sched)
  show ?case
  proof (cases "j < length ps \<and> isl (ps ! j)")
    case True
    then show ?thesis by (cases "ps ! j") auto
  next
    case False
    then have "\<exists>i \<in> set sched. i < length ps \<and> isl (ps ! i)"
      using Cons.prems by auto
    from Cons.IH[OF this] show ?thesis
      using False by (cases "ps ! j") (auto split: sum.splits)
  qed
qed

text \<open>
  C4, as amended. When the directory can be read, every \<^verbatim>\<open>fs.stat\<close> call succeeds
  and the calls complete in any order \<open>sched\<close>, the answer is HTTP 200 with
  \<^verbatim>\<open>success: true\<close> and one object for each directory entry, in the order of the
  directory listing, each with the entry's name, the size and modification time of
  its \<^verbatim>\<open>stats\<close>, and its path. When some \<^verbatim>\<open>fs.stat\<close> call fails, the answer is the
  HTTP 500 \<^verbatim>\<open>Could not list files\<close> answer, with the message of a failed call.
\<close>

theorem get_files_lists_every_entry:
  assumes "readdir w (uploadsDir w) = Inr names"
    and "set sched = {..<length names}"
  shows "(map (\<lambda>n. stat w (path_join (uploadsDir w) n)) names = map Inr sts \<longrightarrow>
            get_files w sched =
              Some (\<lparr>status = 200,
                     payload = JObj
                       [(''success'', JBool True),
                        (''files'', JArr (map (\<lambda>(n, st).
                            detail_object n (path_join (uploadsDir w) n) st) (zip names sts)))]\<rparr>,
                    []))
    \<and> ((\<exists>n \<in> set names. isl (stat w (path_join (uploadsDir w) n))) \<longrightarrow>
          (\<exists>n \<in> set names. isl (stat w (path_join (uploadsDir w) n)) \<and>
             get_files w sched =
               Some (could_not_list (projl (stat w (path_join (uploadsDir w) n))))))"
proof (intro conjI impI)
  assume ok: "map (\<lambda>n. stat w (path_join (uploadsDir w) n)) names = map Inr sts"
  then have len: "length sts = length names"
    by (metis length_map)
  let ?objs = "map (\<lambda>(n, st). detail_object n (path_join (uploadsDir w) n) st) (zip names sts)"
  have details: "map (file_detail w) names = map Inr ?objs"
  proof (rule nth_equalityI)
    show "length (map (file_detail w) names) = length (map Inr ?objs)"
      using len by simp
  next
    fix i assume "i < length (map (file_detail w) names)"
    then have i: "i < length names" by simp
    have "map (\<lambda>n. stat w (path_join (uploadsDir w) n)) names ! i = map Inr sts ! i"
      using ok by simp
    then have "stat w (path_join (uploadsDir w) (names ! i)) = Inr (sts ! i)"
      using i len by simp
    then show "map (file_detail w) names ! i = map Inr ?objs ! i"
      using i len by (simp add: file_detail_def)
  qed
  have "set sched = {..<length ?objs}"
    using assms(2) len by simp
  then have "Promise_all sched (map Inr ?objs) = Some (Inr ?objs)"
    by (rule Promise_all_fulfilled)
  then have "Promise_all sched (map (file_detail w) names) = Some (Inr ?objs)"
    by (simp only: details)
  then show "get_files w sched =
      Some (\<lparr>status = 200,
             payload = JObj [(''success'', JBool True), (''files'', JArr ?objs)]\<rparr>, [])"
    by (simp add: get_files_def assms(1))
next
  assume "\<exists>n \<in> set names. isl (stat w (path_join (uploadsDir w) n))"
  then obtain k where k: "k < length names"
      and bad: "isl (stat w (path_join (uploadsDir w) (names ! k)))"
    by (auto simp add: in_set_conv_nth)
  let ?ps = "map (file_detail w) names"
  have isl_iff: "isl (file_detail w n) = isl (stat w (path_join (uploadsDir w) n))" for n
    by (cases "stat w (path_join (uploadsDir w) n)") (simp_all add: file_detail_def)
  have projl_eq: "isl (stat w (path_join (uploadsDir w) n)) \<Longrightarrow>
      projl (file_detail w n) = projl (stat w (path_join (uploadsDir w) n))" for n
    by (cases "stat w (path_join (uploadsDir w) n)") (simp_all add: file_detail_def)
  have "\<exists>i \<in> set sched. i < length ?ps \<and> isl (?ps ! i)"
    using k bad assms(2) by (auto simp add: isl_iff intro!: bexI[of _ k])
  from Promise_all_run_rejected[OF this, of "replicate (length ?ps) None"]
  obtain i where i: "i < length names" "isl (?ps ! i)"
      and run: "Promise_all sched ?ps = Some (Inl (projl (?ps ! i)))"
    by (auto simp add: Promise_all_def)
  have st: "isl (stat w (path_join (uploadsDir w) (names ! i)))"
    using i by (simp add: isl_iff)
  have "get_files w sched =
      Some (could_not_list (projl (stat w (path_join (uploadsDir w) (names ! i)))))"
    using i run by (simp add: get_files_def assms(1) projl_eq[OF st])
  with i st show "\<exists>n \<in> set names. isl (stat w (path_join (uploadsDir w) n)) \<and>
      get_files w sched = Some (could_not_list (projl (stat w (path_join (uploadsDir w) n))))"
    by (intro bexI[of _ "names ! i"]) simp_all
qed

text \<open>
  The stat calls of the two entries complete in the order second, first; the answer
  lists them in the order of the directory.
\<close>

theorem get_files_lists_every_entry_witness:
  "readdir example_world (uploadsDir example_world) =
     Inr [''b_2024-01-02T03-04-05-678Z.txt'', ''a.tar_2024-01-01T00-00-00-000Z.gz'']
   \<and> get_files example_world [1, 0] =
       Some (\<lparr>status = 200,
              payload = JObj
                [(''success'', JBool True),
                 (''files'', JArr
                    [JObj [(''name'', JStr ''b_2024-01-02T03-04-05-678Z.txt''),
                           (''size'', JNum 3),
                           (''modified'', JStr ''2024-01-02T03:04:05.700Z''),
                           (''path'', JStr ''/srv/app/uploads/b_2024-01-02T03-04-05-678Z.txt'')],
                     JObj [(''name'', JStr ''a.tar_2024-01-01T00-00-00-000Z.gz''),
                           (''size'', JNum 2048),
                           (''modified'', JStr ''2024-01-01T00:00:00.100Z''),
                           (''path'', JStr ''/srv/app/uploads/a.tar_2024-01-01T00-00-00-000Z.gz'')]])]\<rparr>,
             [])"
proof -
  let ?names = "[''b_2024-01-02T03-04-05-678Z.txt'', ''a.tar_2024-01-01T00-00-00-000Z.gz'']"
  let ?sts = "[\<lparr>stat_size = 3, mtime = ''2024-01-02T03:04:05.700Z''\<rparr>,
               \<lparr>stat_size = 2048, mtime = ''2024-01-01T00:00:00.100Z''\<rparr>]"
  have dir: "uploadsDir example_world = ''/srv/app/uploads''"
    by (simp add: uploadsDir_def example_world_def path_join_def)
  have rd: "readdir example_world (uploadsDir example_world) = Inr ?names"
    unfolding dir by (simp add: example_world_def)
  have sched: "set [1, 0::nat] = {..<length ?names}"
    by auto
  have sts: "map (\<lambda>n. stat example_world (path_join (uploadsDir example_world) n)) ?names
      = map Inr ?sts"
    unfolding dir by (simp add: example_world_def path_join_def)
  from get_files_lists_every_entry [OF rd sched, of ?sts] sts
  have "get_files example_world [1, 0] =
      Some (\<lparr>status = 200,
             payload = JObj
               [(''success'', JBool True),
                (''files'', JArr (map (\<lambda>(n, st).
                    detail_object n (path_join (uploadsDir example_world) n) st)
                    (zip ?names ?sts)))]\<rparr>, [])"
    by blast
  then show ?thesis
    unfolding dir using rd unfolding dir by (simp add: detail_object_def path_join_def)
qed

text \<open>
  C4 as the specification states it fails on a directory that can be read and lists
  an entry whose \<^verbatim>\<open>fs.stat\<close> call fails: the answer is HTTP 500, not a list.
\<close>

theorem get_files_dangling_entry:
  "readdir broken_world (uploadsDir broken_world) = Inr [''a.txt'', ''gone'']
   \<and> get_files broken_world [0, 1] =
       Some (\<lparr>status = 500,
              payload = JObj [(''success'', JBool False),
                              (''error'', JStr ''Could not list files''),
                              (''details'', JStr ''ENOENT'')]\<rparr>,
             [Console (Error_listing_files ''ENOENT'')])"
  by (simp add: get_files_def broken_world_def uploadsDir_def path_join_def Promise_all_def
      file_detail_def could_not_list_def)

section \<open>GET /health: the answer\<close>

text \<open>
  C7. Whatever the environment and the time, and so whatever was uploaded or listed
  before, the health handler answers HTTP 200 with \<^verbatim>\<open>success: true\<close>, the message
  \<^verbatim>\<open>Server is running\<close>, the current time and the uploads directory. It reads nothing
  that can fail and has no other answer.
\<close>

theorem get_health_always_ok:
  "get_health w now =
     (\<lparr>status = 200,
       payload = JObj [(''success'', JBool True),
                       (''message'', JStr ''Server is running''),
                       (''timestamp'', JStr now),
                       (''uploadsDirectory'', JStr (uploadsDir w))]\<rparr>,
      [])
   \<and> status (fst (get_health w now)) = 200
   \<and> get (payload (fst (get_health w now))) ''success'' = Some (JBool True)
   \<and> get (payload (fst (get_health w now))) ''message'' = Some (JStr ''Server is running'')
   \<and> get (payload (fst (get_health w now))) ''timestamp'' = Some (JStr now)
   \<and> get (payload (fst (get_health w now))) ''uploadsDirectory'' = Some (JStr (uploadsDir w))"
  by (simp add: get_health_def)

section \<open>Startup without the key or the certificate\<close>

text \<open>
  C5. When the read of the private key or of the certificate fails, the process
  prints the error and the hint and exits with code 1, and it never listens. In every
  run, a listening socket is the HTTPS server's, on the fixed port, with the key and
  the certificate that were read.
\<close>

theorem startup_without_tls_material:
  assumes "(\<exists>m. readFile w ''./private.key'' = Inl m) \<or> (\<exists>m. readFile w ''./public.crt'' = Inl m)"
  shows "(\<exists>m. startHttpsServer w =
            [Console (Error_starting_HTTPS_server m), Console Make_sure_files_exist, Exit 1])
    \<and> (\<forall>p k c. ListenHttps p k c \<notin> set (startHttpsServer w))
    \<and> (\<forall>w' p k c. ListenHttps p k c \<in> set (startHttpsServer w') \<longrightarrow>
          p = PORT \<and> readFile w' ''./private.key'' = Inr k \<and> readFile w' ''./public.crt'' = Inr c)"
proof (intro conjI)
  show "\<exists>m. startHttpsServer w =
      [Console (Error_starting_HTTPS_server m), Console Make_sure_files_exist, Exit 1]"
    using assms
    by (auto simp add: startHttpsServer_def startup_failed_def split: sum.splits option.splits)
  show "\<forall>p k c. ListenHttps p k c \<notin> set (startHttpsServer w)"
    using assms
    by (auto simp add: startHttpsServer_def startup_failed_def split: sum.splits option.splits)
  show "\<forall>w' p k c. ListenHttps p k c \<in> set (startHttpsServer w') \<longrightarrow>
          p = PORT \<and> readFile w' ''./private.key'' = Inr k \<and> readFile w' ''./public.crt'' = Inr c"
    by (auto simp add: startHttpsServer_def startup_failed_def split: sum.splits option.splits)
qed

theorem startup_without_tls_material_witness:
  "readFile broken_world ''./private.key'' = Inl ''ENOENT''
   \<and> startHttpsServer broken_world =
       [Console (Error_starting_HTTPS_server ''ENOENT''), Console Make_sure_files_exist, Exit 1]
   \<and> (\<forall>p k c. ListenHttps p k c \<notin> set (startHttpsServer broken_world))"
proof -
  have key: "readFile broken_world ''./private.key'' = Inl ''ENOENT''"
    by (simp add: broken_world_def)
  then have "(\<exists>m. readFile broken_world ''./private.key'' = Inl m) \<or>
      (\<exists>m. readFile broken_world ''./public.crt'' = Inl m)"
    by blast
  from startup_without_tls_material [OF this]
  obtain m where run: "startHttpsServer broken_world =
        [Console (Error_starting_HTTPS_server m), Console Make_sure_files_exist, Exit 1]"
      and quiet: "\<forall>p k c. ListenHttps p k c \<notin> set (startHttpsServer broken_world)"
    by blast
  have "startHttpsServer broken_world = startup_failed ''ENOENT''"
    by (simp add: startHttpsServer_def key)
  with run have "m = ''ENOENT''"
    by (simp add: startup_failed_def)
  with key run quiet show ?thesis
    by blast
qed

end
